theory Spec2Isabelle
  imports Complex_Main
begin

section \<open>Data model\<close>

text \<open>
  The client exists in two variants with the same store: \<^verbatim>\<open>src/index.tsx\<close>
  (multi-article fetch, \<^verbatim>\<open>addArticles\<close>, \<^verbatim>\<open>/fetch-source\<close>) and the source
  embedded in \<^verbatim>\<open>src/README.md\<close> (single-article fetch, \<^verbatim>\<open>addArticle\<close>,
  \<^verbatim>\<open>/fetch-url\<close>, pasted text). Functions whose text differs between the two
  take the variant as their first argument.
\<close>

datatype variant = Multi | Single

text \<open>
  \<^verbatim>\<open>interface Article\<close>. The optional properties \<^verbatim>\<open>summary?\<close> and
  \<^verbatim>\<open>isSummarizing?\<close> are \<open>None\<close> while the property is absent.
\<close>

record Article =
  article_id :: string
  title :: string
  content :: string
  source :: string
  summary :: "string option"
  isSummarizing :: "bool option"

record BackendSettings =
  url :: string
  key :: string

text \<open>
  The values \<^verbatim>\<open>JSON.stringify\<close> writes and \<^verbatim>\<open>JSON.parse\<close> reads. A stored
  text is represented by the JSON value it denotes (a text that is not JSON denotes
  none). An object is the list of its own properties in their order. For an object of
  \<^verbatim>\<open>interface Article\<close> the keys are listed in the order of the declaration; an
  absent optional property has no key, as \<^verbatim>\<open>JSON.stringify\<close> drops
  \<^verbatim>\<open>undefined\<close>.
\<close>

datatype json =
    JNull
  | JBool bool
  | JNumber real
  | JString string
  | JArray "json list"
  | JObject "(string \<times> json) list"

type_synonym js_object = "(string \<times> json) list"

definition Article_props :: "Article \<Rightarrow> js_object" where
  "Article_props a =
     [(''id'', JString (article_id a)),
      (''title'', JString (title a)),
      (''content'', JString (content a)),
      (''source'', JString (source a))]
     @ (case summary a of None \<Rightarrow> [] | Some t \<Rightarrow> [(''summary'', JString t)])
     @ (case isSummarizing a of None \<Rightarrow> [] | Some b \<Rightarrow> [(''isSummarizing'', JBool b)])"

definition Article_json :: "Article \<Rightarrow> json" where
  "Article_json a = JObject (Article_props a)"

definition JSON_stringify :: "Article list \<Rightarrow> json" where
  "JSON_stringify xs = JArray (map Article_json xs)"

definition BackendSettings_json :: "BackendSettings \<Rightarrow> json" where
  "BackendSettings_json b = JObject [(''url'', JString (url b)), (''key'', JString (key b))]"

text \<open>
  What the object spread \<^verbatim>\<open>{...a}\<close> copies from a value: the properties of an
  object, the indexed elements of an array, the indexed characters of a string, and
  nothing from \<^verbatim>\<open>null\<close>, a boolean or a number.
\<close>

fun decimal :: "nat \<Rightarrow> string" where
  "decimal n =
     (if n < 10 then [char_of (48 + n)] else decimal (n div 10) @ [char_of (48 + n mod 10)])"

fun own_properties :: "json \<Rightarrow> js_object" where
  "own_properties (JObject kvs) = kvs"
| "own_properties (JArray xs) = zip (map decimal [0..<length xs]) xs"
| "own_properties (JString t) = zip (map decimal [0..<length t]) (map (\<lambda>c. JString [c]) t)"
| "own_properties JNull = []"
| "own_properties (JBool b) = []"
| "own_properties (JNumber n) = []"

text \<open>
  A property written in an object literal after a spread: it replaces the value of the
  key where the key stands, or comes last.
\<close>

fun set_property :: "string \<Rightarrow> json \<Rightarrow> js_object \<Rightarrow> js_object" where
  "set_property k v [] = [(k, v)]"
| "set_property k v ((k', v') # kvs) =
     (if k' = k then (k, v) # kvs else (k', v') # set_property k v kvs)"

definition get_property :: "js_object \<Rightarrow> string \<Rightarrow> json option" where
  "get_property obj k = map_of obj k"

subsection \<open>Application state\<close>

text \<open>
  Article objects are mutated through references: \<^verbatim>\<open>handleSummarize\<close> keeps the
  object it found across the \<^verbatim>\<open>await\<close>, while \<^verbatim>\<open>removeArticle\<close> replaces the
  array. So objects live in a store, and the module-level \<^verbatim>\<open>articles\<close> array is a
  list of addresses. The remaining fields are the module-level \<^verbatim>\<open>backendSettings\<close>,
  the browser's \<^verbatim>\<open>localStorage\<close>, and what the program did to the outside:
  the texts passed to \<^verbatim>\<open>alert\<close>, whether the settings modal is displayed, the
  requests sent to \<^verbatim>\<open>ai.models.generateContent\<close> and to \<^verbatim>\<open>fetch\<close>, and the
  summarization calls still awaited (the object each continuation holds).
  Rendering of the article grid and of the fetch button is not modelled, and
  \<^verbatim>\<open>localStorage.setItem\<close> is taken to succeed.
\<close>

type_synonym ref = nat

record GenerateContentRequest =
  model :: string
  contents :: string

record FetchRequest =
  fetch_backend :: string
  fetch_pathname :: string
  fetch_param_url :: string
  fetch_authorization :: string

record app =
  heap :: "ref \<Rightarrow> Article"
  next_ref :: ref
  articles :: "ref list"
  backendSettings :: "BackendSettings option"
  localStorage :: "string \<rightharpoonup> json"
  alerts :: "string list"
  settingsModal_displayed :: bool
  generateContent_calls :: "GenerateContentRequest list"
  fetch_calls :: "FetchRequest list"
  awaiting_summary :: "ref list"

definition articles_key :: string where
  "articles_key = ''newsreader-articles''"

definition settings_key :: string where
  "settings_key = ''newsreader-backend-settings''"

text \<open>The article objects of the list, in order: what \<^verbatim>\<open>articles\<close> denotes.\<close>

definition current :: "app \<Rightarrow> Article list" where
  "current s = map (heap s) (articles s)"

text \<open>An object literal evaluated: a fresh address holding the value.\<close>

definition new_object :: "Article \<Rightarrow> app \<Rightarrow> ref \<times> app" where
  "new_object a s = (next_ref s, s\<lparr>heap := (heap s)(next_ref s := a), next_ref := Suc (next_ref s)\<rparr>)"

fun new_objects :: "Article list \<Rightarrow> app \<Rightarrow> ref list \<times> app" where
  "new_objects [] s = ([], s)"
| "new_objects (a # as) s =
     (let (r, s1) = new_object a s;
          (rs, s2) = new_objects as s1
      in (r # rs, s2))"

section \<open>Operations\<close>

definition saveState :: "app \<Rightarrow> app" where
  "saveState s =
     (let ls = (localStorage s)(articles_key \<mapsto> JSON_stringify (current s))
      in s\<lparr>localStorage :=
             (case backendSettings s of
                None \<Rightarrow> ls
              | Some b \<Rightarrow> ls(settings_key \<mapsto> BackendSettings_json b))\<rparr>)"

text \<open>
  \<^verbatim>\<open>loadState\<close> checks nothing about what it reads, so it is given on JSON values:
  the module's two variables hold whatever was stored. Every element of the stored array
  is rebuilt as \<^verbatim>\<open>{...a, isSummarizing: false}\<close>. \<open>None\<close> is a \<^verbatim>\<open>TypeError\<close>:
  \<^verbatim>\<open>.map\<close> on a stored value that is not an array, or \<^verbatim>\<open>backendSettings.url\<close> on
  a stored \<^verbatim>\<open>null\<close>. (A stored text that is not JSON, on which \<^verbatim>\<open>JSON.parse\<close>
  throws, is no value of the storage here.) The two inputs of the settings form, which
  it also fills, are not modelled. An article of the interface is in memory the object
  \<open>Article_props\<close> gives.
\<close>

record module_state =
  loaded_articles :: "js_object list"
  loaded_backendSettings :: "json option"

definition loadState :: "(string \<rightharpoonup> json) \<Rightarrow> module_state \<Rightarrow> module_state option" where
  "loadState ls m =
     (case (case ls articles_key of
              None \<Rightarrow> Some m
            | Some (JArray xs) \<Rightarrow>
                Some (m\<lparr>loaded_articles :=
                          map (\<lambda>a. set_property ''isSummarizing'' (JBool False) (own_properties a)) xs\<rparr>)
            | Some _ \<Rightarrow> None) of
        None \<Rightarrow> None
      | Some m1 \<Rightarrow>
          (case ls settings_key of
             None \<Rightarrow> Some m1
           | Some JNull \<Rightarrow> None
           | Some j \<Rightarrow> Some (m1\<lparr>loaded_backendSettings := Some j\<rparr>)))"

definition openSettingsModal :: "app \<Rightarrow> app" where
  "openSettingsModal s = s\<lparr>settingsModal_displayed := True\<rparr>"

definition closeSettingsModal :: "app \<Rightarrow> app" where
  "closeSettingsModal s = s\<lparr>settingsModal_displayed := False\<rparr>"

definition alert :: "string \<Rightarrow> app \<Rightarrow> app" where
  "alert m s = s\<lparr>alerts := alerts s @ [m]\<rparr>"

text \<open>
  \<^verbatim>\<open>addArticles\<close> (multi-article variant): the incoming objects whose
  \<^verbatim>\<open>source\<close> no object of the list has are put in front of the list.
\<close>

definition uniqueNewArticles :: "ref list \<Rightarrow> app \<Rightarrow> ref list" where
  "uniqueNewArticles newArticles s =
     filter (\<lambda>newArt. \<not> list_ex (\<lambda>existingArt. source (heap s existingArt) = source (heap s newArt))
                              (articles s))
            newArticles"

definition addArticles :: "ref list \<Rightarrow> app \<Rightarrow> app" where
  "addArticles newArticles s =
     (if length (uniqueNewArticles newArticles s) = 0
      then alert ''No new articles found from this source.'' s
      else saveState (s\<lparr>articles := uniqueNewArticles newArticles s @ articles s\<rparr>))"

text \<open>\<^verbatim>\<open>addArticle\<close> (single-article variant).\<close>

definition addArticle :: "ref \<Rightarrow> app \<Rightarrow> app" where
  "addArticle a s = saveState (s\<lparr>articles := a # articles s\<rparr>)"

definition removeArticle :: "string \<Rightarrow> app \<Rightarrow> app" where
  "removeArticle articleId s =
     saveState (s\<lparr>articles := filter (\<lambda>a. article_id (heap s a) \<noteq> articleId) (articles s)\<rparr>)"

text \<open>
  \<^verbatim>\<open>String.prototype.trim\<close> on strings of 8-bit characters: the white space and
  line terminators below U+0100 (tab, LF, VT, FF, CR, space, no-break space).
\<close>

definition is_space :: "char \<Rightarrow> bool" where
  "is_space c = (c \<in> set [CHR 0x09, CHR 0x0A, CHR 0x0B, CHR 0x0C, CHR 0x0D, CHR 0x20, CHR 0xA0])"

definition trim :: "string \<Rightarrow> string" where
  "trim t = rev (dropWhile is_space (rev (dropWhile is_space t)))"

text \<open>The template literal of \<^verbatim>\<open>handleSummarize\<close>, in each variant.\<close>

fun prompt :: "variant \<Rightarrow> string \<Rightarrow> string \<Rightarrow> string" where
  "prompt Multi t c =
     ''Summarize the following web article in a concise paragraph:\<newline>\<newline>---\<newline>\<newline>Title: ''
       @ t @ ''\<newline>\<newline>'' @ c"
| "prompt Single t c =
     ''Summarize the following article in a concise paragraph:\<newline>\<newline>---\<newline>\<newline>Title: ''
       @ t @ ''\<newline>\<newline>'' @ c"

text \<open>
  \<^verbatim>\<open>handleSummarize\<close> runs in two parts. The first runs up to the \<^verbatim>\<open>await\<close>:
  the guard, the flag, and the call sent. The object found is remembered in
  \<open>awaiting_summary\<close> for the continuation.
\<close>

definition handleSummarize :: "variant \<Rightarrow> string \<Rightarrow> app \<Rightarrow> app" where
  "handleSummarize v articleId s =
     (case find (\<lambda>a. article_id (heap s a) = articleId) (articles s) of
        None \<Rightarrow> s
      | Some article \<Rightarrow>
          if isSummarizing (heap s article) = Some True then s
          else
            (let s1 = s\<lparr>heap := (heap s)(article := (heap s article)\<lparr>isSummarizing := Some True\<rparr>)\<rparr>;
                 request = \<lparr>model = ''gemini-2.5-flash'',
                            contents = prompt v (title (heap s1 article)) (content (heap s1 article))\<rparr>
             in s1\<lparr>generateContent_calls := generateContent_calls s1 @ [request],
                    awaiting_summary := awaiting_summary s1 @ [article]\<rparr>))"

text \<open>
  The second part runs when the call settles: the promise is fulfilled with a response
  whose \<^verbatim>\<open>text\<close> is a string or \<^verbatim>\<open>undefined\<close> (then \<^verbatim>\<open>.trim()\<close> throws inside
  the \<^verbatim>\<open>try\<close>), or it is rejected. \<open>k\<close> picks the awaited call; calls settle in any
  order. With no such call the state is unchanged.
\<close>

datatype outcome = Fulfilled "string option" | Rejected

definition summarize_failed :: string where
  "summarize_failed = ''Could not summarize the article. Please check the console for details.''"

definition handleSummarize_settle :: "nat \<Rightarrow> outcome \<Rightarrow> app \<Rightarrow> app" where
  "handleSummarize_settle k out s =
     (if k < length (awaiting_summary s) then
        (let article = awaiting_summary s ! k;
             s0 = s\<lparr>awaiting_summary := take k (awaiting_summary s) @ drop (Suc k) (awaiting_summary s)\<rparr>;
             s1 = (case out of
                     Fulfilled (Some text) \<Rightarrow>
                       s0\<lparr>heap := (heap s0)(article := (heap s0 article)\<lparr>summary := Some (trim text)\<rparr>)\<rparr>
                   | Fulfilled None \<Rightarrow> alert summarize_failed s0
                   | Rejected \<Rightarrow> alert summarize_failed s0);
             s2 = s1\<lparr>heap := (heap s1)(article := (heap s1 article)\<lparr>isSummarizing := Some False\<rparr>)\<rparr>
         in saveState s2)
      else s)"

text \<open>
  \<^verbatim>\<open>fetchArticlesFromSource\<close> (multi) and \<^verbatim>\<open>fetchArticleFromBackend\<close> (single) up to
  the \<^verbatim>\<open>await\<close>. \<^verbatim>\<open>new URL\<close> is the browser's: \<open>newURL\<close> says whether it
  accepts a string or throws, and with which message.
\<close>

datatype URL_result = URL_ok | URL_throws string

definition settings_missing :: string where
  "settings_missing = ''Backend settings are not configured. Please configure them first.''"

fun fetch_pathname_of :: "variant \<Rightarrow> string" where
  "fetch_pathname_of Multi = ''/fetch-source''"
| "fetch_pathname_of Single = ''/fetch-url''"

fun fetch_failed :: "variant \<Rightarrow> string" where
  "fetch_failed Multi = ''Could not fetch articles: ''"
| "fetch_failed Single = ''Could not fetch the article: ''"

definition fetch_from_backend :: "(string \<Rightarrow> URL_result) \<Rightarrow> variant \<Rightarrow> string \<Rightarrow> app \<Rightarrow> app" where
  "fetch_from_backend newURL v u s =
     (case backendSettings s of
        None \<Rightarrow> openSettingsModal (alert settings_missing s)
      | Some b \<Rightarrow>
          if url b = [] \<or> key b = [] then openSettingsModal (alert settings_missing s)
          else
            (case newURL (url b) of
               URL_throws m \<Rightarrow> alert (fetch_failed v @ m) s
             | URL_ok \<Rightarrow>
                 s\<lparr>fetch_calls := fetch_calls s @
                      [\<lparr>fetch_backend = url b, fetch_pathname = fetch_pathname_of v,
                        fetch_param_url = u, fetch_authorization = ''Bearer '' @ key b\<rparr>]\<rparr>))"

definition fetchArticlesFromSource :: "(string \<Rightarrow> URL_result) \<Rightarrow> string \<Rightarrow> app \<Rightarrow> app" where
  "fetchArticlesFromSource newURL u s = fetch_from_backend newURL Multi u s"

definition fetchArticleFromBackend :: "(string \<Rightarrow> URL_result) \<Rightarrow> string \<Rightarrow> app \<Rightarrow> app" where
  "fetchArticleFromBackend newURL u s = fetch_from_backend newURL Single u s"

text \<open>\<^verbatim>\<open>saveSettings\<close>, given the values of the two inputs of the form.\<close>

definition saveSettings :: "string \<Rightarrow> string \<Rightarrow> app \<Rightarrow> app" where
  "saveSettings u k s =
     alert ''Settings saved successfully.''
       (closeSettingsModal (saveState (s\<lparr>backendSettings := Some \<lparr>url = trim u, key = trim k\<rparr>\<rparr>)))"

text \<open>The module's initial state as an application state, over the browser's storage.\<close>

definition blank :: Article where
  "blank = \<lparr>article_id = [], title = [], content = [], source = [],
            summary = None, isSummarizing = None\<rparr>"

definition initial :: "(string \<rightharpoonup> json) \<Rightarrow> app" where
  "initial ls =
     \<lparr>heap = (\<lambda>_. blank), next_ref = 0, articles = [], backendSettings = None,
      localStorage = ls, alerts = [], settingsModal_displayed = False,
      generateContent_calls = [], fetch_calls = [], awaiting_summary = []\<rparr>"

text \<open>
  \<^verbatim>\<open>main\<close>: \<^verbatim>\<open>loadState\<close> on the module's initial variables. The settings modal
  that \<^verbatim>\<open>main\<close> opens from a timer when no settings were stored is left out.
\<close>

definition main :: "(string \<rightharpoonup> json) \<Rightarrow> module_state option" where
  "main ls = loadState ls \<lparr>loaded_articles = [], loaded_backendSettings = None\<rparr>"

subsection \<open>The event loop\<close>

text \<open>
  One event is one run of the single thread to its next suspension: a handler from its
  start to its end or to its \<^verbatim>\<open>await\<close>, or the continuation of an awaited call.
  \<open>Added\<close> is the successful end of a fetch in the multi-article variant (the objects
  built from the response, then \<^verbatim>\<open>addArticles\<close>); \<open>AddedOne\<close> is the same in the
  single-article variant, and its text form (the object literal, then \<^verbatim>\<open>addArticle\<close>).
  An event of the other variant leaves the state as it is.
\<close>

datatype event =
    Added "Article list"
  | AddedOne Article
  | Remove string
  | Summarize string
  | Settled nat outcome
  | Fetch string
  | SettingsSaved string string

fun step :: "(string \<Rightarrow> URL_result) \<Rightarrow> variant \<Rightarrow> event \<Rightarrow> app \<Rightarrow> app" where
  "step newURL Multi (Added xs) s = (let (rs, s1) = new_objects xs s in addArticles rs s1)"
| "step newURL Single (Added xs) s = s"
| "step newURL Single (AddedOne x) s = (let (r, s1) = new_object x s in addArticle r s1)"
| "step newURL Multi (AddedOne x) s = s"
| "step newURL v (Remove i) s = removeArticle i s"
| "step newURL v (Summarize i) s = handleSummarize v i s"
| "step newURL v (Settled k out) s = handleSummarize_settle k out s"
| "step newURL v (Fetch u) s = fetch_from_backend newURL v u s"
| "step newURL v (SettingsSaved u k) s = saveSettings u k s"

fun run :: "(string \<Rightarrow> URL_result) \<Rightarrow> variant \<Rightarrow> event list \<Rightarrow> app \<Rightarrow> app" where
  "run newURL v [] s = s"
| "run newURL v (e # es) s = run newURL v es (step newURL v e s)"

section \<open>State predicates\<close>

text \<open>The stored article snapshot is the serialization of the list in memory.\<close>

definition in_sync :: "app \<Rightarrow> bool" where
  "in_sync s = (localStorage s articles_key = Some (JSON_stringify (current s)))"

text \<open>
  The stored snapshot may lag behind the list in one respect: \<open>ys\<close>, the articles it
  was written from, are the articles of the list now, but for articles whose
  summarization call is awaited, which may have got \<^verbatim>\<open>isSummarizing\<close> true since.
\<close>

definition stored_behind :: "app \<Rightarrow> Article list \<Rightarrow> bool" where
  "stored_behind s ys =
     list_all2 (\<lambda>y r. y = heap s r
                 \<or> (r \<in> set (awaiting_summary s) \<and> heap s r = y\<lparr>isSummarizing := Some True\<rparr>))
       ys (articles s)"

text \<open>The storage holds a snapshot that lags behind the list in that respect only.\<close>

definition near_sync :: "app \<Rightarrow> bool" where
  "near_sync s = (\<exists>ys. localStorage s articles_key = Some (JSON_stringify ys) \<and> stored_behind s ys)"

text \<open>Every object of the list has been allocated.\<close>

definition allocated :: "app \<Rightarrow> bool" where
  "allocated s = list_all (\<lambda>r. r < next_ref s) (articles s)"

text \<open>
  The events that reach \<^verbatim>\<open>saveState\<close>: a removal, the continuation of an awaited
  summarization call, a settings save, an addition in the single-article variant, and
  in the multi-article variant an addition with at least one source the list does not
  have yet.
\<close>

fun writes :: "variant \<Rightarrow> event \<Rightarrow> app \<Rightarrow> bool" where
  "writes v (Remove i) s = True"
| "writes v (Settled k out) s = (k < length (awaiting_summary s))"
| "writes v (SettingsSaved u k) s = True"
| "writes Single (AddedOne x) s = True"
| "writes Multi (Added xs) s = list_ex (\<lambda>x. source x \<notin> set (map source (current s))) xs"
| "writes v e s = False"

subsection \<open>Example data\<close>

definition art_a :: Article where
  "art_a = \<lparr>article_id = ''art-1-0'', title = ''A'', content = ''B'',
     source = ''https://example.org/a'', summary = None, isSummarizing = None\<rparr>"

definition art_b :: Article where
  "art_b = \<lparr>article_id = ''art-2-0'', title = ''C'', content = ''D'',
     source = ''https://example.org/a'', summary = None, isSummarizing = None\<rparr>"

definition art_c :: Article where
  "art_c = \<lparr>article_id = ''art-2-1'', title = ''E'', content = ''F'',
     source = ''https://example.org/a'', summary = None, isSummarizing = None\<rparr>"

definition art_d :: Article where
  "art_d = \<lparr>article_id = ''art-3-0'', title = ''G'', content = ''H'',
     source = ''https://example.org/d'', summary = None, isSummarizing = None\<rparr>"

definition art_e :: Article where
  "art_e = \<lparr>article_id = ''art-3-1'', title = ''I'', content = ''J'',
     source = ''https://example.org/d'', summary = None, isSummarizing = None\<rparr>"

definition any_URL :: "string \<Rightarrow> URL_result" where
  "any_URL u = URL_ok"

text \<open>The store after one article has been fetched into the empty application.\<close>

definition store_a :: app where
  "store_a = run any_URL Multi [Added [art_a]] (initial Map.empty)"

text \<open>The same store once \<^verbatim>\<open>handleSummarize\<close> has sent the call for its article.\<close>

definition store_a_summarizing :: app where
  "store_a_summarizing = run any_URL Multi [Summarize ''art-1-0''] store_a"

text \<open>
  The store with the objects of a fetched batch built and not yet passed to
  \<^verbatim>\<open>addArticles\<close>: two articles of the source the list has, and two of another source.
\<close>

definition store_a_known_batch :: app where
  "store_a_known_batch = snd (new_objects [art_b, art_c] store_a)"

definition store_a_fresh_batch :: app where
  "store_a_fresh_batch = snd (new_objects [art_d, art_e] store_a)"

section \<open>Auxiliary facts\<close>

subsection \<open>What each operation leaves alone\<close>

lemma saveState_simps [simp]:
  "heap (saveState s) = heap s"
  "next_ref (saveState s) = next_ref s"
  "articles (saveState s) = articles s"
  "backendSettings (saveState s) = backendSettings s"
  "alerts (saveState s) = alerts s"
  "settingsModal_displayed (saveState s) = settingsModal_displayed s"
  "generateContent_calls (saveState s) = generateContent_calls s"
  "fetch_calls (saveState s) = fetch_calls s"
  "awaiting_summary (saveState s) = awaiting_summary s"
  by (simp_all add: saveState_def Let_def)

lemma current_saveState [simp]: "current (saveState s) = current s"
  by (simp add: current_def)

lemma keys_differ: "articles_key \<noteq> settings_key"
  by (simp add: articles_key_def settings_key_def)

lemma saveState_stored:
  "localStorage (saveState s) articles_key = Some (JSON_stringify (current s))"
  using keys_differ by (simp add: saveState_def Let_def split: option.split)

lemma in_sync_saveState: "in_sync (saveState s)"
  by (simp add: in_sync_def saveState_stored)

lemma alert_simps [simp]:
  "heap (alert m s) = heap s"
  "next_ref (alert m s) = next_ref s"
  "articles (alert m s) = articles s"
  "backendSettings (alert m s) = backendSettings s"
  "localStorage (alert m s) = localStorage s"
  "alerts (alert m s) = alerts s @ [m]"
  "settingsModal_displayed (alert m s) = settingsModal_displayed s"
  "generateContent_calls (alert m s) = generateContent_calls s"
  "fetch_calls (alert m s) = fetch_calls s"
  "awaiting_summary (alert m s) = awaiting_summary s"
  by (simp_all add: alert_def)

lemma new_object_simps:
  "new_object a s = (r, s1) \<Longrightarrow> r = next_ref s \<and> next_ref s1 = Suc (next_ref s) \<and>
     heap s1 = (heap s)(next_ref s := a) \<and> articles s1 = articles s \<and>
     localStorage s1 = localStorage s \<and> awaiting_summary s1 = awaiting_summary s \<and>
     backendSettings s1 = backendSettings s \<and> alerts s1 = alerts s \<and>
     generateContent_calls s1 = generateContent_calls s \<and> fetch_calls s1 = fetch_calls s \<and>
     settingsModal_displayed s1 = settingsModal_displayed s"
  by (auto simp: new_object_def)

lemma new_objects_frame:
  "new_objects xs s = (rs, s1) \<Longrightarrow>
     next_ref s \<le> next_ref s1 \<and> (\<forall>r. r < next_ref s \<longrightarrow> heap s1 r = heap s r) \<and>
     articles s1 = articles s \<and> localStorage s1 = localStorage s \<and>
     awaiting_summary s1 = awaiting_summary s \<and> backendSettings s1 = backendSettings s \<and>
     alerts s1 = alerts s \<and> generateContent_calls s1 = generateContent_calls s \<and>
     fetch_calls s1 = fetch_calls s \<and> settingsModal_displayed s1 = settingsModal_displayed s \<and>
     list_all (\<lambda>r. r < next_ref s1) rs"
proof (induction xs arbitrary: s rs s1)
  case Nil
  then show ?case by simp
next
  case (Cons a as)
  obtain r s' where o: "new_object a s = (r, s')" by (cases "new_object a s")
  obtain rs' s'' where n: "new_objects as s' = (rs', s'')" by (cases "new_objects as s'")
  from Cons.prems o n have e: "rs = r # rs'" "s1 = s''" by auto
  note IH = Cons.IH [OF n]
  note O = new_object_simps [OF o]
  show ?case using IH O e by (auto simp: list_all_iff)
qed

lemma allocated_iff: "allocated s \<longleftrightarrow> (\<forall>r \<in> set (articles s). r < next_ref s)"
  by (simp add: allocated_def list_all_iff)

lemma current_cong:
  "articles t = articles s \<Longrightarrow> (\<forall>r \<in> set (articles s). heap t r = heap s r) \<Longrightarrow> current t = current s"
  by (simp add: current_def)

lemma in_sync_cong:
  "localStorage t = localStorage s \<Longrightarrow> current t = current s \<Longrightarrow> in_sync t = in_sync s"
  by (simp add: in_sync_def)

subsection \<open>Allocation\<close>

lemma new_objects_values:
  "new_objects xs s = (rs, s1) \<Longrightarrow>
     map (heap s1) rs = xs \<and> rs = [next_ref s ..< next_ref s + length xs]
     \<and> next_ref s1 = next_ref s + length xs"
proof (induction xs arbitrary: s rs s1)
  case Nil
  then show ?case by simp
next
  case (Cons a as)
  obtain r s' where o: "new_object a s = (r, s')" by (cases "new_object a s")
  obtain rs' s'' where n: "new_objects as s' = (rs', s'')" by (cases "new_objects as s'")
  from Cons.prems o n have e: "rs = r # rs'" "s1 = s''" by auto
  note IH = Cons.IH [OF n]
  note O = new_object_simps [OF o]
  note F = new_objects_frame [OF n]
  have h: "heap s'' r = a" using F O by simp
  have u: "[next_ref s ..< next_ref s + length (a # as)] = next_ref s # [Suc (next_ref s) ..< Suc (next_ref s) + length as]"
    by (simp add: upt_conv_Cons del: upt_Suc)
  have "rs' = [Suc (next_ref s) ..< Suc (next_ref s) + length as]"
    using IH O by simp
  then have 1: "rs = [next_ref s ..< next_ref s + length (a # as)]"
    unfolding u using e O by simp
  from IH have m: "map (heap s'') rs' = as" by blast
  have 2: "map (heap s1) rs = a # as"
    unfolding e using m h by simp
  have 3: "next_ref s1 = next_ref s + length (a # as)"
    using IH e O by simp
  show ?case using 1 2 3 by blast
qed

subsection \<open>Adding and removing\<close>

lemma filter_absent_id:
  "articleId \<notin> set (map article_id (current s)) \<Longrightarrow>
   filter (\<lambda>a. article_id (heap s a) \<noteq> articleId) (articles s) = articles s"
  by (rule filter_True) (auto simp: current_def)

lemma addArticles_articles:
  "articles (addArticles newArticles s) = uniqueNewArticles newArticles s @ articles s"
  by (simp add: addArticles_def)

lemma addArticles_heap: "heap (addArticles newArticles s) = heap s"
  by (simp add: addArticles_def)

lemma known_source_iff:
  "list_ex (\<lambda>existingArt. source (heap s existingArt) = x) (articles s)
     \<longleftrightarrow> x \<in> set (map source (current s))"
  by (auto simp: list_ex_iff current_def)

lemma uniqueNewArticles_filter:
  "uniqueNewArticles newArticles s =
     filter (\<lambda>n. source (heap s n) \<notin> set (map source (current s))) newArticles"
  unfolding uniqueNewArticles_def known_source_iff ..

lemma addArticles_cases:
  "addArticles rs s = alert ''No new articles found from this source.'' s
   \<or> addArticles rs s = saveState (s\<lparr>articles := uniqueNewArticles rs s @ articles s\<rparr>)"
  by (simp add: addArticles_def)

lemma uniqueNewArticles_subset: "set (uniqueNewArticles rs s) \<subseteq> set rs"
  by (auto simp: uniqueNewArticles_def)

lemma Added_kept:
  assumes "allocated s" "new_objects xs s = (rs, s1)"
  shows "current s1 = current s"
    and "map (heap s1) (uniqueNewArticles rs s1)
           = filter (\<lambda>x. source x \<notin> set (map source (current s))) xs"
proof -
  note F = new_objects_frame [OF assms(2)]
  note V = new_objects_values [OF assms(2)]
  show c: "current s1 = current s"
    using F assms(1) by (intro current_cong) (auto simp: allocated_iff)
  have "map (heap s1) (uniqueNewArticles rs s1)
          = filter (\<lambda>x. source x \<notin> set (map source (current s1))) (map (heap s1) rs)"
    unfolding uniqueNewArticles_filter filter_map by (simp add: comp_def)
  moreover from V have "map (heap s1) rs = xs" by blast
  ultimately show "map (heap s1) (uniqueNewArticles rs s1)
          = filter (\<lambda>x. source x \<notin> set (map source (current s))) xs"
    by (simp only: c)
qed

lemma Added_current:
  assumes "allocated s" "new_objects xs s = (rs, s1)"
  shows "current (addArticles rs s1)
           = filter (\<lambda>x. source x \<notin> set (map source (current s))) xs @ current s"
  using Added_kept [OF assms]
  by (simp add: current_def addArticles_articles addArticles_heap)

lemma Added_allocated:
  assumes "allocated s" "new_objects xs s = (rs, s1)"
  shows "allocated (addArticles rs s1)"
proof -
  note F = new_objects_frame [OF assms(2)]
  have old: "\<forall>r \<in> set (articles s1). r < next_ref s1"
    using F assms(1) by (auto simp: allocated_iff)
  have new: "\<forall>r \<in> set (uniqueNewArticles rs s1). r < next_ref s1"
    using F uniqueNewArticles_subset [of rs s1] by (auto simp: list_all_iff)
  show ?thesis
    using addArticles_cases [of rs s1] old new by (auto simp: allocated_iff)
qed

lemma Added_in_sync:
  assumes "allocated s" "in_sync s" "new_objects xs s = (rs, s1)"
  shows "in_sync (addArticles rs s1)"
proof -
  note F = new_objects_frame [OF assms(3)]
  have "current s1 = current s"
    using F assms(1) by (intro current_cong) (auto simp: allocated_iff)
  with F assms(2) have "in_sync s1" by (simp add: in_sync_def)
  then have "in_sync (alert m s1)" for m
    by (simp add: in_sync_def current_def)
  then show ?thesis
    using addArticles_cases [of rs s1] by (auto simp: in_sync_saveState)
qed

lemma Added_awaiting:
  "new_objects xs s = (rs, s1) \<Longrightarrow> awaiting_summary (addArticles rs s1) = awaiting_summary s"
  using new_objects_frame [of xs s rs s1] addArticles_cases [of rs s1] by auto

subsection \<open>Summarizing\<close>

lemma handleSummarize_rejected:
  "find (\<lambda>a. article_id (heap s a) = articleId) (articles s) = Some article \<Longrightarrow>
   isSummarizing (heap s article) = Some True \<Longrightarrow> handleSummarize v articleId s = s"
  by (simp add: handleSummarize_def)

lemma handleSummarize_absent:
  "find (\<lambda>a. article_id (heap s a) = articleId) (articles s) = None \<Longrightarrow>
   handleSummarize v articleId s = s"
  by (simp add: handleSummarize_def)

lemma handleSummarize_accepted:
  "find (\<lambda>a. article_id (heap s a) = articleId) (articles s) = Some article \<Longrightarrow>
   isSummarizing (heap s article) \<noteq> Some True \<Longrightarrow>
   handleSummarize v articleId s =
     s\<lparr>heap := (heap s)(article := (heap s article)\<lparr>isSummarizing := Some True\<rparr>),
       generateContent_calls := generateContent_calls s @
         [\<lparr>model = ''gemini-2.5-flash'',
           contents = prompt v (title (heap s article)) (content (heap s article))\<rparr>],
       awaiting_summary := awaiting_summary s @ [article]\<rparr>"
  by (simp add: handleSummarize_def Let_def)

lemma handleSummarize_twice:
  "handleSummarize v articleId (handleSummarize v articleId s) = handleSummarize v articleId s"
proof (cases "find (\<lambda>a. article_id (heap s a) = articleId) (articles s)")
  case None
  then show ?thesis by (simp add: handleSummarize_absent)
next
  case (Some article)
  show ?thesis
  proof (cases "isSummarizing (heap s article) = Some True")
    case True
    with Some show ?thesis by (simp add: handleSummarize_rejected)
  next
    case False
    let ?s' = "handleSummarize v articleId s"
    have s': "?s' = s\<lparr>heap := (heap s)(article := (heap s article)\<lparr>isSummarizing := Some True\<rparr>),
       generateContent_calls := generateContent_calls s @
         [\<lparr>model = ''gemini-2.5-flash'',
           contents = prompt v (title (heap s article)) (content (heap s article))\<rparr>],
       awaiting_summary := awaiting_summary s @ [article]\<rparr>"
      by (rule handleSummarize_accepted [OF Some False])
    have ids: "article_id (heap ?s' a) = article_id (heap s a)" for a
      unfolding s' by simp
    have "articles ?s' = articles s"
      unfolding s' by simp
    with Some have found: "find (\<lambda>a. article_id (heap ?s' a) = articleId) (articles ?s') = Some article"
      by (simp only: ids)
    have flag: "isSummarizing (heap ?s' article) = Some True"
      unfolding s' by simp
    show ?thesis by (rule handleSummarize_rejected [OF found flag])
  qed
qed

lemma handleSummarize_frame:
  "articles (handleSummarize v i s) = articles s \<and> next_ref (handleSummarize v i s) = next_ref s
   \<and> localStorage (handleSummarize v i s) = localStorage s"
  by (simp add: handleSummarize_def Let_def split: option.split)

lemma handleSummarize_awaiting_empty:
  "awaiting_summary (handleSummarize v i s) = [] \<Longrightarrow> handleSummarize v i s = s"
  by (simp add: handleSummarize_def Let_def split: option.splits if_splits)

lemma settle_frame:
  "articles (handleSummarize_settle k out s) = articles s
   \<and> next_ref (handleSummarize_settle k out s) = next_ref s"
  by (simp add: handleSummarize_settle_def Let_def split: outcome.split option.split)

lemma settle_in_sync:
  "in_sync (handleSummarize_settle k out s) \<or> handleSummarize_settle k out s = s"
  by (simp add: handleSummarize_settle_def Let_def in_sync_saveState)

lemma trim_spec:
  "\<exists>pre post. t = pre @ trim t @ post \<and> list_all is_space pre \<and> list_all is_space post
     \<and> (trim t = [] \<or> (\<not> is_space (hd (trim t)) \<and> \<not> is_space (last (trim t))))"
proof -
  let ?m = "dropWhile is_space t"
  let ?pre = "takeWhile is_space t"
  let ?post = "rev (takeWhile is_space (rev ?m))"
  have 1: "t = ?pre @ ?m" by simp
  have 2: "?m = trim t @ ?post"
    unfolding trim_def
    by (metis rev_append rev_rev_ident takeWhile_dropWhile_id)
  have 3: "list_all is_space ?pre"
    by (simp add: list_all_iff) (meson set_takeWhileD)
  have 4: "list_all is_space ?post"
    by (simp add: list_all_iff) (meson set_takeWhileD)
  have 5: "\<not> is_space (last (trim t))" if "trim t \<noteq> []"
  proof -
    from that have "dropWhile is_space (rev ?m) \<noteq> []" by (simp add: trim_def)
    then have "\<not> is_space (hd (dropWhile is_space (rev ?m)))" by (rule hd_dropWhile)
    then show ?thesis using that by (simp add: trim_def last_rev)
  qed
  have 6: "\<not> is_space (hd (trim t))" if "trim t \<noteq> []"
  proof -
    from that 2 have "?m \<noteq> []" by (metis append_is_Nil_conv)
    then have "\<not> is_space (hd ?m)" by (rule hd_dropWhile)
    moreover have "hd ?m = hd (trim t)" using 2 that by (metis hd_append2)
    ultimately show ?thesis by simp
  qed
  from 1 2 have "t = ?pre @ trim t @ ?post" by simp
  with 3 4 5 6 show ?thesis by blast
qed

subsection \<open>Fetching and settings\<close>

lemma fetch_frame:
  "articles (fetch_from_backend newURL v u s) = articles s
   \<and> next_ref (fetch_from_backend newURL v u s) = next_ref s
   \<and> heap (fetch_from_backend newURL v u s) = heap s
   \<and> localStorage (fetch_from_backend newURL v u s) = localStorage s
   \<and> awaiting_summary (fetch_from_backend newURL v u s) = awaiting_summary s"
  by (simp add: fetch_from_backend_def openSettingsModal_def split: option.split URL_result.split)

lemma saveSettings_frame:
  "articles (saveSettings u k s) = articles s \<and> next_ref (saveSettings u k s) = next_ref s"
  by (simp add: saveSettings_def closeSettingsModal_def)

lemma saveSettings_in_sync: "in_sync (saveSettings u k s)"
proof -
  have "in_sync (saveState (s\<lparr>backendSettings := Some \<lparr>url = trim u, key = trim k\<rparr>\<rparr>))"
    by (rule in_sync_saveState)
  then show ?thesis
    by (simp add: saveSettings_def closeSettingsModal_def in_sync_def current_def)
qed

subsection \<open>The invariant of the event loop\<close>

lemma step_allocated:
  assumes "allocated s"
  shows "allocated (step newURL v e s)"
proof (cases e)
  case (Added xs)
  obtain rs s1 where n: "new_objects xs s = (rs, s1)" by (cases "new_objects xs s")
  show ?thesis
    using Added n Added_allocated [OF assms n] assms by (cases v) simp_all
next
  case (AddedOne x)
  have "allocated (addArticle (next_ref s) (s\<lparr>heap := (heap s)(next_ref s := x), next_ref := Suc (next_ref s)\<rparr>))"
    using assms by (auto simp: allocated_iff addArticle_def less_Suc_eq)
  then show ?thesis
    using AddedOne assms by (cases v) (simp_all add: new_object_def)
next
  case (Remove i)
  then show ?thesis using assms by (auto simp: allocated_iff removeArticle_def)
next
  case (Summarize i)
  then show ?thesis using assms by (simp add: allocated_iff handleSummarize_frame)
next
  case (Settled k out)
  then show ?thesis using assms by (simp add: allocated_iff settle_frame)
next
  case (Fetch u)
  then show ?thesis using assms by (simp add: allocated_iff fetch_frame)
next
  case (SettingsSaved u k)
  then show ?thesis using assms by (simp add: allocated_iff saveSettings_frame)
qed

lemma step_in_sync:
  assumes a: "allocated s" and i: "awaiting_summary s = [] \<longrightarrow> in_sync s"
    and e: "awaiting_summary (step newURL v e s) = []"
  shows "in_sync (step newURL v e s)"
proof (cases e)
  case (Added xs)
  obtain rs s1 where n: "new_objects xs s = (rs, s1)" by (cases "new_objects xs s")
  show ?thesis
  proof (cases v)
    case Multi
    with Added n e have "awaiting_summary s = []" by (simp add: Added_awaiting [OF n])
    with i have "in_sync s" by simp
    from Added_in_sync [OF a this n] Added Multi n show ?thesis by simp
  next
    case Single
    with Added e i show ?thesis by simp
  qed
next
  case (AddedOne x)
  show ?thesis
  proof (cases v)
    case Multi
    with AddedOne e i show ?thesis by simp
  next
    case Single
    with AddedOne show ?thesis by (simp add: new_object_def addArticle_def in_sync_saveState)
  qed
next
  case (Remove x)
  then show ?thesis by (simp add: removeArticle_def in_sync_saveState)
next
  case (Summarize x)
  with e have "step newURL v e s = s" by (simp add: handleSummarize_awaiting_empty)
  with e i show ?thesis by simp
next
  case (Settled k out)
  with settle_in_sync [of k out s] e i show ?thesis by auto
next
  case (Fetch u)
  with e i show ?thesis
    by (simp add: fetch_frame in_sync_def current_def)
next
  case (SettingsSaved u k)
  then show ?thesis by (simp add: saveSettings_in_sync)
qed

lemma run_append: "run newURL v (es @ fs) s = run newURL v fs (run newURL v es s)"
  by (induction es arbitrary: s) simp_all

lemma run_invariant:
  "allocated s \<Longrightarrow> (awaiting_summary s = [] \<longrightarrow> in_sync s) \<Longrightarrow>
   allocated (run newURL v es s) \<and> (awaiting_summary (run newURL v es s) = [] \<longrightarrow> in_sync (run newURL v es s))"
proof (induction es arbitrary: s)
  case Nil
  then show ?case by simp
next
  case (Cons e es)
  have "allocated (step newURL v e s)"
    by (rule step_allocated) (rule Cons.prems)
  moreover have "awaiting_summary (step newURL v e s) = [] \<longrightarrow> in_sync (step newURL v e s)"
    using step_in_sync [OF Cons.prems] by blast
  ultimately show ?case using Cons.IH by simp
qed

lemma writes_in_sync:
  assumes "allocated s" "writes v e s"
  shows "in_sync (step newURL v e s)"
proof (cases e)
  case (Added xs)
  obtain rs s1 where n: "new_objects xs s = (rs, s1)" by (cases "new_objects xs s")
  from Added assms(2) have v: "v = Multi" by (cases v) simp_all
  with Added assms(2) have "filter (\<lambda>x. source x \<notin> set (map source (current s))) xs \<noteq> []"
    by (simp add: filter_empty_conv list_ex_iff)
  with Added_kept(2) [OF assms(1) n] have "uniqueNewArticles rs s1 \<noteq> []" by auto
  then have "in_sync (addArticles rs s1)"
    by (simp add: addArticles_def in_sync_saveState)
  with Added v n show ?thesis by simp
next
  case (AddedOne x)
  with assms(2) have "v = Single" by (cases v) simp_all
  with AddedOne show ?thesis by (simp add: new_object_def addArticle_def in_sync_saveState)
next
  case (Remove i)
  then show ?thesis by (simp add: removeArticle_def in_sync_saveState)
next
  case (Summarize i)
  with assms(2) show ?thesis by (cases v) simp_all
next
  case (Settled k out)
  with assms(2) show ?thesis
    by (cases v) (simp_all add: handleSummarize_settle_def Let_def in_sync_saveState)
next
  case (Fetch u)
  with assms(2) show ?thesis by (cases v) simp_all
next
  case (SettingsSaved u k)
  then show ?thesis by (simp add: saveSettings_in_sync)
qed

subsection \<open>How far the storage may lag\<close>

lemma stored_behind_current: "stored_behind s (current s)"
  by (simp add: stored_behind_def current_def list_all2_conv_all_nth)

lemma in_sync_near: "in_sync s \<Longrightarrow> near_sync s"
  using stored_behind_current by (auto simp: near_sync_def in_sync_def)

lemma stored_behind_idle:
  "awaiting_summary s = [] \<Longrightarrow> stored_behind s ys \<Longrightarrow> ys = current s"
  by (auto simp: stored_behind_def current_def list_all2_conv_all_nth intro: nth_equalityI)

lemma stored_behind_forget:
  "stored_behind s ys \<Longrightarrow>
   map (\<lambda>a. a\<lparr>isSummarizing := None\<rparr>) ys = map (\<lambda>a. a\<lparr>isSummarizing := None\<rparr>) (current s)"
  by (auto simp: stored_behind_def current_def list_all2_conv_all_nth intro!: nth_equalityI)

lemma stored_behind_cong:
  assumes "stored_behind s ys" "articles t = articles s"
    "\<forall>r \<in> set (articles s). heap t r = heap s r"
    "set (awaiting_summary s) \<subseteq> set (awaiting_summary t)"
  shows "stored_behind t ys"
  using assms by (auto simp: stored_behind_def list_all2_conv_all_nth)

lemma near_sync_cong:
  assumes "near_sync s" "localStorage t = localStorage s" "articles t = articles s"
    "\<forall>r \<in> set (articles s). heap t r = heap s r"
    "set (awaiting_summary s) \<subseteq> set (awaiting_summary t)"
  shows "near_sync t"
  using assms stored_behind_cong [of s _ t] unfolding near_sync_def by auto

lemma handleSummarize_near:
  assumes "near_sync s"
  shows "near_sync (handleSummarize v i s)"
proof (cases "find (\<lambda>a. article_id (heap s a) = i) (articles s)")
  case None
  with assms show ?thesis by (simp add: handleSummarize_absent)
next
  case (Some r)
  show ?thesis
  proof (cases "isSummarizing (heap s r) = Some True")
    case True
    with Some assms show ?thesis by (simp add: handleSummarize_rejected)
  next
    case False
    note t = handleSummarize_accepted [OF Some False, of v]
    from assms obtain ys where st: "localStorage s articles_key = Some (JSON_stringify ys)"
      and sb: "stored_behind s ys" by (auto simp: near_sync_def)
    have "stored_behind (handleSummarize v i s) ys"
      unfolding t using sb False
      by (auto simp: stored_behind_def list_all2_conv_all_nth)
    moreover have "localStorage (handleSummarize v i s) articles_key = Some (JSON_stringify ys)"
      unfolding t using st by simp
    ultimately show ?thesis unfolding near_sync_def by blast
  qed
qed

lemma step_near:
  assumes a: "allocated s" and n: "near_sync s"
  shows "near_sync (step newURL v e s)"
proof (cases e)
  case (Added xs)
  obtain rs s1 where o: "new_objects xs s = (rs, s1)" by (cases "new_objects xs s")
  note F = new_objects_frame [OF o]
  have "near_sync s1"
    using n F a by (intro near_sync_cong [of s s1]) (auto simp: allocated_iff)
  then have "near_sync (alert m s1)" for m
    by (rule near_sync_cong) simp_all
  then have "near_sync (addArticles rs s1)"
    using addArticles_cases [of rs s1] by (auto simp: in_sync_saveState in_sync_near)
  with Added o n show ?thesis by (cases v) simp_all
next
  case (AddedOne x)
  with n show ?thesis
    by (cases v) (simp_all add: new_object_def addArticle_def in_sync_saveState in_sync_near)
next
  case (Remove i)
  then show ?thesis by (simp add: removeArticle_def in_sync_saveState in_sync_near)
next
  case (Summarize i)
  with n show ?thesis by (simp add: handleSummarize_near)
next
  case (Settled k out)
  with settle_in_sync [of k out s] n show ?thesis by (auto simp: in_sync_near)
next
  case (Fetch u)
  have "near_sync (fetch_from_backend newURL v u s)"
    using n by (rule near_sync_cong) (simp_all add: fetch_frame)
  with Fetch show ?thesis by simp
next
  case (SettingsSaved u k)
  then show ?thesis by (simp add: saveSettings_in_sync in_sync_near)
qed

lemma run_near:
  "allocated s \<Longrightarrow> near_sync s \<Longrightarrow> allocated (run newURL v es s) \<and> near_sync (run newURL v es s)"
proof (induction es arbitrary: s)
  case Nil
  then show ?case by simp
next
  case (Cons e es)
  from Cons.prems have "allocated (step newURL v e s)" "near_sync (step newURL v e s)"
    by (simp_all add: step_allocated step_near)
  then show ?case using Cons.IH by simp
qed

lemma silent_storage:
  assumes "allocated s" "\<not> writes v e s"
  shows "localStorage (step newURL v e s) = localStorage s"
proof (cases e)
  case (Added xs)
  show ?thesis
  proof (cases v)
    case Multi
    obtain rs s1 where o: "new_objects xs s = (rs, s1)" by (cases "new_objects xs s")
    note F = new_objects_frame [OF o]
    from Added Multi assms(2) have "filter (\<lambda>x. source x \<notin> set (map source (current s))) xs = []"
      by (simp add: filter_empty_conv list_ex_iff)
    with Added_kept(2) [OF assms(1) o] have "uniqueNewArticles rs s1 = []" by simp
    then have "localStorage (addArticles rs s1) = localStorage s1"
      by (simp add: addArticles_def)
    with Added Multi o F show ?thesis by simp
  next
    case Single
    with Added show ?thesis by simp
  qed
next
  case (AddedOne x)
  with assms(2) show ?thesis by (cases v) simp_all
next
  case (Remove i)
  with assms(2) show ?thesis by simp
next
  case (Summarize i)
  then show ?thesis by (simp add: handleSummarize_frame)
next
  case (Settled k out)
  with assms(2) show ?thesis by (simp add: handleSummarize_settle_def)
next
  case (Fetch u)
  then show ?thesis by (simp add: fetch_frame)
next
  case (SettingsSaved u k)
  with assms(2) show ?thesis by simp
qed

subsection \<open>Reading back what was stored\<close>

lemma get_set_property: "get_property (set_property k v obj) k = Some v"
  by (induction obj) (auto simp: get_property_def)

lemma Article_props_flag:
  "get_property (Article_props a) ''isSummarizing'' = map_option JBool (isSummarizing a)"
  by (cases "summary a"; cases "isSummarizing a")
     (simp_all add: get_property_def Article_props_def)

lemma Article_props_reset:
  "set_property ''isSummarizing'' (JBool False) (Article_props a)
     = Article_props (a\<lparr>isSummarizing := Some False\<rparr>)"
  by (cases "summary a"; cases "isSummarizing a") (simp_all add: Article_props_def)

lemma Article_props_inj: "Article_props a = Article_props b \<Longrightarrow> a = b"
  by (cases a; cases b) (auto simp: Article_props_def split: option.splits)

lemma saveState_flags:
  "\<exists>objs. localStorage (saveState s) articles_key = Some (JArray (map JObject objs))
      \<and> map (\<lambda>obj. get_property obj ''isSummarizing'') objs
          = map (\<lambda>a. map_option JBool (isSummarizing a)) (current s)"
proof -
  have "localStorage (saveState s) articles_key
          = Some (JArray (map JObject (map Article_props (current s))))"
    by (simp add: saveState_stored JSON_stringify_def Article_json_def comp_def)
  moreover have "map (\<lambda>obj. get_property obj ''isSummarizing'') (map Article_props (current s))
          = map (\<lambda>a. map_option JBool (isSummarizing a)) (current s)"
    by (simp add: Article_props_flag)
  ultimately show ?thesis by blast
qed

lemma main_throws:
  "main ls = None \<longleftrightarrow>
     (\<exists>j. ls articles_key = Some j \<and> (\<forall>xs. j \<noteq> JArray xs)) \<or> ls settings_key = Some JNull"
  by (auto simp: main_def loadState_def split: option.splits json.splits)

lemma main_flags:
  assumes "main ls = Some m"
  shows "list_all (\<lambda>obj. get_property obj ''isSummarizing'' = Some (JBool False)) (loaded_articles m)"
proof (cases "ls articles_key")
  case None
  with assms have "loaded_articles m = []"
    by (auto simp: main_def loadState_def split: option.splits json.splits)
  then show ?thesis by simp
next
  case (Some j)
  with assms obtain xs where "j = JArray xs"
    by (auto simp: main_def loadState_def split: option.splits json.splits)
  with assms Some have "loaded_articles m
      = map (\<lambda>a. set_property ''isSummarizing'' (JBool False) (own_properties a)) xs"
    by (auto simp: main_def loadState_def split: option.splits json.splits)
  then show ?thesis by (simp add: list_all_iff get_set_property)
qed

lemma main_of_saved:
  assumes "ls articles_key = Some (JSON_stringify ys)" "ls settings_key \<noteq> Some JNull"
  shows "\<exists>m. main ls = Some m
           \<and> loaded_articles m = map (\<lambda>a. Article_props (a\<lparr>isSummarizing := Some False\<rparr>)) ys"
  using assms
  by (auto simp: main_def loadState_def JSON_stringify_def Article_json_def comp_def
      Article_props_reset split: option.splits json.splits)


subsection \<open>The example store\<close>

lemma store_a_eq:
  "store_a = \<lparr>heap = (\<lambda>_. blank)(0 := art_a), next_ref = Suc 0, articles = [0],
      backendSettings = None, localStorage = [articles_key \<mapsto> JSON_stringify [art_a]],
      alerts = [], settingsModal_displayed = False,
      generateContent_calls = [], fetch_calls = [], awaiting_summary = []\<rparr>"
  by (simp add: store_a_def initial_def new_object_def addArticles_def uniqueNewArticles_def
      saveState_def current_def)

lemma store_a_summarizing_eq:
  "store_a_summarizing =
     \<lparr>heap = (\<lambda>_. blank)(0 := art_a\<lparr>isSummarizing := Some True\<rparr>), next_ref = Suc 0, articles = [0],
      backendSettings = None, localStorage = [articles_key \<mapsto> JSON_stringify [art_a]],
      alerts = [], settingsModal_displayed = False,
      generateContent_calls =
        [\<lparr>model = ''gemini-2.5-flash'',
          contents = ''Summarize the following web article in a concise paragraph:\<newline>\<newline>---\<newline>\<newline>Title: A\<newline>\<newline>B''\<rparr>],
      fetch_calls = [], awaiting_summary = [0]\<rparr>"
  by (simp add: store_a_summarizing_def store_a_eq handleSummarize_def art_a_def)

lemma store_a_known_batch_eq:
  "store_a_known_batch =
     \<lparr>heap = (\<lambda>_. blank)(0 := art_a, Suc 0 := art_b, Suc (Suc 0) := art_c),
      next_ref = Suc (Suc (Suc 0)), articles = [0],
      backendSettings = None, localStorage = [articles_key \<mapsto> JSON_stringify [art_a]],
      alerts = [], settingsModal_displayed = False,
      generateContent_calls = [], fetch_calls = [], awaiting_summary = []\<rparr>"
  by (simp add: store_a_known_batch_def store_a_eq new_object_def)

lemma store_a_fresh_batch_eq:
  "store_a_fresh_batch =
     \<lparr>heap = (\<lambda>_. blank)(0 := art_a, Suc 0 := art_d, Suc (Suc 0) := art_e),
      next_ref = Suc (Suc (Suc 0)), articles = [0],
      backendSettings = None, localStorage = [articles_key \<mapsto> JSON_stringify [art_a]],
      alerts = [], settingsModal_displayed = False,
      generateContent_calls = [], fetch_calls = [], awaiting_summary = []\<rparr>"
  by (simp add: store_a_fresh_batch_def store_a_eq new_object_def)

section \<open>Persistence follows the list\<close>

text \<open>
  C1. For every sequence of add, remove and summarize operations from a state whose stored
  snapshot is the serialization of the list, the specification asks that the stored
  snapshot is again the serialization of the list after each operation, also after
  operations that fail or change nothing.

  This fails while a summarization call is awaited: \<^verbatim>\<open>handleSummarize\<close> sets
  \<^verbatim>\<open>isSummarizing\<close> and renders without saving, so an operation that ends without a
  write (here a second, rejected \<^verbatim>\<open>handleSummarize\<close>) ends with the flag in memory and
  not in storage.
\<close>

theorem drift_counterexample:
  "allocated store_a \<and> in_sync store_a
   \<and> \<not> in_sync (run any_URL Multi [Summarize ''art-1-0'', Summarize ''art-1-0''] store_a)"
  by (simp add: store_a_eq allocated_def in_sync_def current_def handleSummarize_def
      JSON_stringify_def Article_json_def Article_props_def art_a_def)

text \<open>
  C1, as the code has it. From such a state, after any sequence of events, the stored
  snapshot is the serialization of the articles of the list as they are, but that an
  article whose summarization call is awaited may have \<^verbatim>\<open>isSummarizing\<close> true in
  memory only; so it is the serialization of the list up to that flag. Whenever no
  summarization call is awaited it is the serialization of the list (so it is after
  every operation when operations run one at a time to their end). Every event that
  writes leaves it so, whatever is awaited, and every other event leaves the storage as
  it was.
\<close>

theorem no_drift:
  assumes "allocated s" and "in_sync s"
  shows "(\<exists>ys. localStorage (run newURL v es s) articles_key = Some (JSON_stringify ys)
            \<and> stored_behind (run newURL v es s) ys
            \<and> map (\<lambda>a. a\<lparr>isSummarizing := None\<rparr>) ys
                = map (\<lambda>a. a\<lparr>isSummarizing := None\<rparr>) (current (run newURL v es s)))
       \<and> (awaiting_summary (run newURL v es s) = [] \<longrightarrow> in_sync (run newURL v es s))
       \<and> (\<forall>e. writes v e (run newURL v es s) \<longrightarrow> in_sync (step newURL v e (run newURL v es s)))
       \<and> (\<forall>e. \<not> writes v e (run newURL v es s) \<longrightarrow>
             localStorage (step newURL v e (run newURL v es s)) = localStorage (run newURL v es s))"
proof -
  let ?t = "run newURL v es s"
  from run_near [OF assms(1) in_sync_near [OF assms(2)], of newURL v es]
  have a: "allocated ?t" and n: "near_sync ?t" by simp_all
  from n obtain ys where ys: "localStorage ?t articles_key = Some (JSON_stringify ys)"
    "stored_behind ?t ys" by (auto simp: near_sync_def)
  have 1: "\<exists>ys. localStorage ?t articles_key = Some (JSON_stringify ys) \<and> stored_behind ?t ys
            \<and> map (\<lambda>a. a\<lparr>isSummarizing := None\<rparr>) ys
                = map (\<lambda>a. a\<lparr>isSummarizing := None\<rparr>) (current ?t)"
    using ys stored_behind_forget [OF ys(2)] by blast
  have 2: "awaiting_summary ?t = [] \<longrightarrow> in_sync ?t"
    using ys stored_behind_idle [of ?t ys] by (auto simp: in_sync_def)
  have 3: "\<forall>e. writes v e ?t \<longrightarrow> in_sync (step newURL v e ?t)"
    using writes_in_sync [OF a] by blast
  have 4: "\<forall>e. \<not> writes v e ?t \<longrightarrow> localStorage (step newURL v e ?t) = localStorage ?t"
    using silent_storage [OF a] by blast
  from 1 2 3 4 show ?thesis by blast
qed

theorem no_drift_witness:
  "allocated store_a \<and> in_sync store_a
   \<and> localStorage (run any_URL Multi [Summarize ''art-1-0''] store_a) articles_key
       = Some (JSON_stringify [art_a])
   \<and> current (run any_URL Multi [Summarize ''art-1-0''] store_a) = [art_a\<lparr>isSummarizing := Some True\<rparr>]
   \<and> stored_behind (run any_URL Multi [Summarize ''art-1-0''] store_a) [art_a]
   \<and> (\<exists>ys. localStorage (run any_URL Multi [Summarize ''art-1-0''] store_a) articles_key
              = Some (JSON_stringify ys)
          \<and> stored_behind (run any_URL Multi [Summarize ''art-1-0''] store_a) ys
          \<and> map (\<lambda>a. a\<lparr>isSummarizing := None\<rparr>) ys
              = map (\<lambda>a. a\<lparr>isSummarizing := None\<rparr>)
                  (current (run any_URL Multi [Summarize ''art-1-0''] store_a)))
   \<and> awaiting_summary (run any_URL Multi [Summarize ''art-1-0'', Settled 0 Rejected] store_a) = []
   \<and> in_sync (run any_URL Multi [Summarize ''art-1-0'', Settled 0 Rejected] store_a)
   \<and> writes Multi (Remove ''art-1-0'') (run any_URL Multi [Summarize ''art-1-0''] store_a)
   \<and> in_sync (step any_URL Multi (Remove ''art-1-0'') (run any_URL Multi [Summarize ''art-1-0''] store_a))
   \<and> \<not> writes Multi (Summarize ''art-1-0'') (run any_URL Multi [Summarize ''art-1-0''] store_a)
   \<and> localStorage (step any_URL Multi (Summarize ''art-1-0'')
                     (run any_URL Multi [Summarize ''art-1-0''] store_a))
       = localStorage (run any_URL Multi [Summarize ''art-1-0''] store_a)"
proof -
  let ?t = "run any_URL Multi [Summarize ''art-1-0''] store_a"
  have a: "allocated store_a" by (simp add: store_a_eq allocated_def)
  have i: "in_sync store_a" by (simp add: store_a_eq in_sync_def current_def)
  have t: "?t = store_a_summarizing" by (simp add: store_a_summarizing_def)
  have st: "localStorage ?t articles_key = Some (JSON_stringify [art_a])"
    unfolding t by (simp add: store_a_summarizing_eq)
  have cu: "current ?t = [art_a\<lparr>isSummarizing := Some True\<rparr>]"
    unfolding t by (simp add: store_a_summarizing_eq current_def)
  have sb: "stored_behind ?t [art_a]"
    unfolding t by (simp add: store_a_summarizing_eq stored_behind_def)
  have e: "awaiting_summary (run any_URL Multi [Summarize ''art-1-0'', Settled 0 Rejected] store_a) = []"
    by (simp add: store_a_eq handleSummarize_def handleSummarize_settle_def art_a_def)
  have w: "writes Multi (Remove ''art-1-0'') ?t"
    by simp
  have nw: "\<not> writes Multi (Summarize ''art-1-0'') ?t"
    by simp
  note T1 = no_drift [OF a i, of any_URL Multi "[Summarize ''art-1-0'']"]
  note T2 = no_drift [OF a i, of any_URL Multi "[Summarize ''art-1-0'', Settled 0 Rejected]"]
  from T1 have ex: "\<exists>ys. localStorage ?t articles_key = Some (JSON_stringify ys)
          \<and> stored_behind ?t ys
          \<and> map (\<lambda>a. a\<lparr>isSummarizing := None\<rparr>) ys
              = map (\<lambda>a. a\<lparr>isSummarizing := None\<rparr>) (current ?t)"
    by blast
  from T1 w have r: "in_sync (step any_URL Multi (Remove ''art-1-0'') ?t)" by blast
  from T1 nw have q: "localStorage (step any_URL Multi (Summarize ''art-1-0'') ?t) = localStorage ?t"
    by blast
  from T2 e have s: "in_sync (run any_URL Multi [Summarize ''art-1-0'', Settled 0 Rejected] store_a)"
    by blast
  from a i st cu sb ex e s w r nw q show ?thesis by blast
qed

section \<open>The summarize guard\<close>

text \<open>
  C2. A second \<^verbatim>\<open>handleSummarize\<close> on an article whose \<^verbatim>\<open>isSummarizing\<close> is true
  returns at once: no call goes out and the state is the same. So two invocations in a
  row on an article that was not being summarized send exactly one call.
\<close>

theorem summarize_guard:
  "(find (\<lambda>a. article_id (heap s a) = articleId) (articles s) = Some article
      \<and> isSummarizing (heap s article) = Some True
      \<longrightarrow> handleSummarize v articleId s = s)
   \<and> (find (\<lambda>a. article_id (heap s a) = articleId) (articles s) = Some article
      \<and> isSummarizing (heap s article) \<noteq> Some True
      \<longrightarrow> length (generateContent_calls (handleSummarize v articleId s))
            = Suc (length (generateContent_calls s))
        \<and> isSummarizing (heap (handleSummarize v articleId s) article) = Some True
        \<and> handleSummarize v articleId (handleSummarize v articleId s) = handleSummarize v articleId s
        \<and> length (generateContent_calls (handleSummarize v articleId (handleSummarize v articleId s)))
            = Suc (length (generateContent_calls s)))"
proof -
  have "length (generateContent_calls (handleSummarize v articleId s)) = Suc (length (generateContent_calls s))
      \<and> isSummarizing (heap (handleSummarize v articleId s) article) = Some True"
    if "find (\<lambda>a. article_id (heap s a) = articleId) (articles s) = Some article"
      "isSummarizing (heap s article) \<noteq> Some True"
    using handleSummarize_accepted [OF that, of v] by simp
  then show ?thesis
    by (simp add: handleSummarize_twice handleSummarize_rejected)
qed

theorem summarize_guard_witness:
  "find (\<lambda>a. article_id (heap store_a_summarizing a) = ''art-1-0'') (articles store_a_summarizing) = Some 0
   \<and> isSummarizing (heap store_a_summarizing 0) = Some True
   \<and> handleSummarize Multi ''art-1-0'' store_a_summarizing = store_a_summarizing
   \<and> find (\<lambda>a. article_id (heap store_a a) = ''art-1-0'') (articles store_a) = Some 0
   \<and> isSummarizing (heap store_a 0) \<noteq> Some True
   \<and> length (generateContent_calls (handleSummarize Multi ''art-1-0'' store_a)) = Suc 0
   \<and> isSummarizing (heap (handleSummarize Multi ''art-1-0'' store_a) 0) = Some True
   \<and> handleSummarize Multi ''art-1-0'' (handleSummarize Multi ''art-1-0'' store_a)
       = handleSummarize Multi ''art-1-0'' store_a
   \<and> length (generateContent_calls
        (handleSummarize Multi ''art-1-0'' (handleSummarize Multi ''art-1-0'' store_a))) = Suc 0"
proof -
  have f: "find (\<lambda>a. article_id (heap store_a a) = ''art-1-0'') (articles store_a) = Some 0"
    by (simp add: store_a_eq art_a_def)
  have n: "isSummarizing (heap store_a 0) \<noteq> Some True"
    by (simp add: store_a_eq art_a_def)
  have c: "generateContent_calls store_a = []"
    by (simp add: store_a_eq)
  have f': "find (\<lambda>a. article_id (heap store_a_summarizing a) = ''art-1-0'')
              (articles store_a_summarizing) = Some 0"
    by (simp add: store_a_summarizing_eq art_a_def)
  have n': "isSummarizing (heap store_a_summarizing 0) = Some True"
    by (simp add: store_a_summarizing_eq)
  from summarize_guard [of store_a "''art-1-0''" 0 Multi]
    summarize_guard [of store_a_summarizing "''art-1-0''" 0 Multi] f n c f' n'
  show ?thesis by simp
qed

section \<open>A summarization call that fails\<close>

text \<open>
  C3. When the awaited summarization call of an article fails (the promise is rejected,
  or the response has no text), the continuation leaves the article's \<^verbatim>\<open>summary\<close> as
  it was, raises the alert, sets \<^verbatim>\<open>isSummarizing\<close> to false and saves: the stored
  snapshot is the serialization of the list. The flag is cleared and the state saved
  whatever the outcome. For an article with no summary that is not being summarized,
  \<^verbatim>\<open>handleSummarize\<close> followed by the failure of its call ends with no summary.
\<close>

theorem summarize_failure:
  assumes "out = Rejected \<or> out = Fulfilled None"
  shows "(k < length (awaiting_summary s) \<longrightarrow>
            summary (heap (handleSummarize_settle k out s) (awaiting_summary s ! k))
              = summary (heap s (awaiting_summary s ! k))
          \<and> alerts (handleSummarize_settle k out s) = alerts s @ [summarize_failed]
          \<and> isSummarizing (heap (handleSummarize_settle k out s) (awaiting_summary s ! k)) = Some False
          \<and> localStorage (handleSummarize_settle k out s) articles_key
              = Some (JSON_stringify (current (handleSummarize_settle k out s)))
          \<and> (\<forall>any. isSummarizing (heap (handleSummarize_settle k any s) (awaiting_summary s ! k)) = Some False
                  \<and> in_sync (handleSummarize_settle k any s)))
       \<and> (find (\<lambda>a. article_id (heap s a) = articleId) (articles s) = Some article
            \<and> isSummarizing (heap s article) \<noteq> Some True \<and> summary (heap s article) = None \<longrightarrow>
            summary (heap (handleSummarize_settle (length (awaiting_summary s)) out
                       (handleSummarize v articleId s)) article) = None
          \<and> isSummarizing (heap (handleSummarize_settle (length (awaiting_summary s)) out
                       (handleSummarize v articleId s)) article) = Some False
          \<and> alerts (handleSummarize_settle (length (awaiting_summary s)) out
                       (handleSummarize v articleId s)) = alerts s @ [summarize_failed]
          \<and> in_sync (handleSummarize_settle (length (awaiting_summary s)) out
                       (handleSummarize v articleId s)))"
proof -
  have step: "summary (heap (handleSummarize_settle k out t) (awaiting_summary t ! k))
              = summary (heap t (awaiting_summary t ! k))
          \<and> alerts (handleSummarize_settle k out t) = alerts t @ [summarize_failed]
          \<and> isSummarizing (heap (handleSummarize_settle k out t) (awaiting_summary t ! k)) = Some False
          \<and> localStorage (handleSummarize_settle k out t) articles_key
              = Some (JSON_stringify (current (handleSummarize_settle k out t)))"
    if "k < length (awaiting_summary t)" for k t
    using that assms
    by (auto simp: handleSummarize_settle_def Let_def saveState_stored)
  have always: "isSummarizing (heap (handleSummarize_settle k any s) (awaiting_summary s ! k)) = Some False
                  \<and> in_sync (handleSummarize_settle k any s)"
    if "k < length (awaiting_summary s)" for any
    using that
    by (cases any) (auto simp: handleSummarize_settle_def Let_def in_sync_saveState split: option.split)
  have whole: "summary (heap (handleSummarize_settle (length (awaiting_summary s)) out
                       (handleSummarize v articleId s)) article) = None
          \<and> isSummarizing (heap (handleSummarize_settle (length (awaiting_summary s)) out
                       (handleSummarize v articleId s)) article) = Some False
          \<and> alerts (handleSummarize_settle (length (awaiting_summary s)) out
                       (handleSummarize v articleId s)) = alerts s @ [summarize_failed]
          \<and> in_sync (handleSummarize_settle (length (awaiting_summary s)) out
                       (handleSummarize v articleId s))"
    if f: "find (\<lambda>a. article_id (heap s a) = articleId) (articles s) = Some article"
      and n: "isSummarizing (heap s article) \<noteq> Some True"
      and u: "summary (heap s article) = None"
  proof -
    let ?t = "handleSummarize v articleId s"
    let ?k = "length (awaiting_summary s)"
    note t = handleSummarize_accepted [OF f n, of v]
    have k: "?k < length (awaiting_summary ?t)" unfolding t by simp
    have a: "awaiting_summary ?t ! ?k = article" unfolding t by simp
    have s0: "summary (heap ?t article) = None" unfolding t using u by simp
    have al: "alerts ?t = alerts s" unfolding t by simp
    from step [OF k] a s0 al have
      "summary (heap (handleSummarize_settle ?k out ?t) article) = None
       \<and> alerts (handleSummarize_settle ?k out ?t) = alerts s @ [summarize_failed]
       \<and> isSummarizing (heap (handleSummarize_settle ?k out ?t) article) = Some False
       \<and> localStorage (handleSummarize_settle ?k out ?t) articles_key
              = Some (JSON_stringify (current (handleSummarize_settle ?k out ?t)))"
      by simp
    then show ?thesis by (simp add: in_sync_def)
  qed
  show ?thesis using step [of k s] always whole by blast
qed

theorem summarize_failure_witness:
  "0 < length (awaiting_summary store_a_summarizing)
   \<and> summary (heap (handleSummarize_settle 0 Rejected store_a_summarizing) 0) = None
   \<and> alerts (handleSummarize_settle 0 Rejected store_a_summarizing) = [summarize_failed]
   \<and> isSummarizing (heap (handleSummarize_settle 0 Rejected store_a_summarizing) 0) = Some False
   \<and> localStorage (handleSummarize_settle 0 Rejected store_a_summarizing) articles_key
       = Some (JSON_stringify [art_a\<lparr>isSummarizing := Some False\<rparr>])
   \<and> find (\<lambda>a. article_id (heap store_a a) = ''art-1-0'') (articles store_a) = Some 0
   \<and> isSummarizing (heap store_a 0) \<noteq> Some True \<and> summary (heap store_a 0) = None
   \<and> summary (heap (handleSummarize_settle 0 Rejected (handleSummarize Multi ''art-1-0'' store_a)) 0) = None
   \<and> in_sync (handleSummarize_settle 0 Rejected (handleSummarize Multi ''art-1-0'' store_a))"
proof -
  have k: "0 < length (awaiting_summary store_a_summarizing)"
    by (simp add: store_a_summarizing_eq)
  have a: "awaiting_summary store_a_summarizing ! 0 = 0"
    "summary (heap store_a_summarizing 0) = None" "alerts store_a_summarizing = []"
    by (simp_all add: store_a_summarizing_eq art_a_def)
  have f: "find (\<lambda>a. article_id (heap store_a a) = ''art-1-0'') (articles store_a) = Some 0"
    "isSummarizing (heap store_a 0) \<noteq> Some True" "summary (heap store_a 0) = None"
    "awaiting_summary store_a = []"
    by (simp_all add: store_a_eq art_a_def)
  have c: "current (handleSummarize_settle 0 Rejected store_a_summarizing)
             = [art_a\<lparr>isSummarizing := Some False\<rparr>]"
    by (simp add: store_a_summarizing_eq handleSummarize_settle_def current_def alert_def)
  from summarize_failure [of Rejected 0 store_a_summarizing "''art-1-0''" 0 Multi]
    summarize_failure [of Rejected 0 store_a "''art-1-0''" 0 Multi] k a f c
  show ?thesis by simp
qed

section \<open>Adding articles\<close>

text \<open>
  C4. In the multi-article variant, \<^verbatim>\<open>addArticles\<close> puts in front of the list exactly
  the incoming articles it keeps, and it keeps no incoming article whose \<^verbatim>\<open>source\<close> is
  the source of an article already in the list. When every incoming article is dropped
  this way, the list and the storage are as before and the alert
  ``No new articles found from this source.'' is raised.
\<close>

theorem addArticles_known_sources:
  "(\<forall>newArt \<in> set newArticles. source (heap s newArt) \<in> set (map source (current s)) \<longrightarrow>
        newArt \<notin> set (uniqueNewArticles newArticles s))
   \<and> articles (addArticles newArticles s) = uniqueNewArticles newArticles s @ articles s
   \<and> ((\<forall>newArt \<in> set newArticles. source (heap s newArt) \<in> set (map source (current s))) \<longrightarrow>
        addArticles newArticles s = alert ''No new articles found from this source.'' s
        \<and> articles (addArticles newArticles s) = articles s
        \<and> current (addArticles newArticles s) = current s
        \<and> localStorage (addArticles newArticles s) = localStorage s
        \<and> alerts (addArticles newArticles s) = alerts s @ [''No new articles found from this source.''])"
proof -
  have a: "\<forall>newArt \<in> set newArticles. source (heap s newArt) \<in> set (map source (current s)) \<longrightarrow>
        newArt \<notin> set (uniqueNewArticles newArticles s)"
    by (simp add: uniqueNewArticles_filter)
  have c: "addArticles newArticles s = alert ''No new articles found from this source.'' s"
    if h: "\<forall>newArt \<in> set newArticles. source (heap s newArt) \<in> set (map source (current s))"
  proof -
    have "uniqueNewArticles newArticles s = []"
      unfolding uniqueNewArticles_filter filter_empty_conv using h by simp
    then show ?thesis by (simp add: addArticles_def)
  qed
  have d: "current (alert m s) = current s" for m
    by (simp add: current_def)
  show ?thesis using a c d addArticles_articles by simp
qed

theorem addArticles_known_sources_witness:
  "source (heap store_a_known_batch 1) \<in> set (map source (current store_a_known_batch))
   \<and> source (heap store_a_known_batch 2) \<in> set (map source (current store_a_known_batch))
   \<and> 1 \<notin> set (uniqueNewArticles [1, 2] store_a_known_batch)
   \<and> 2 \<notin> set (uniqueNewArticles [1, 2] store_a_known_batch)
   \<and> articles (addArticles [1, 2] store_a_known_batch) = [0]
   \<and> current (addArticles [1, 2] store_a_known_batch) = [art_a]
   \<and> localStorage (addArticles [1, 2] store_a_known_batch) = localStorage store_a_known_batch
   \<and> alerts (addArticles [1, 2] store_a_known_batch) = [''No new articles found from this source.'']"
proof -
  have k: "source (heap store_a_known_batch 1) \<in> set (map source (current store_a_known_batch))"
    "source (heap store_a_known_batch 2) \<in> set (map source (current store_a_known_batch))"
    by (simp_all add: store_a_known_batch_eq current_def art_a_def art_b_def art_c_def)
  then have all: "\<forall>newArt \<in> set [1, 2].
      source (heap store_a_known_batch newArt) \<in> set (map source (current store_a_known_batch))"
    by simp
  have f: "articles store_a_known_batch = [0]" "current store_a_known_batch = [art_a]"
    "alerts store_a_known_batch = []"
    by (simp_all add: store_a_known_batch_eq current_def)
  note T = addArticles_known_sources [of "[1, 2]" store_a_known_batch]
  from T k have n: "1 \<notin> set (uniqueNewArticles [1, 2] store_a_known_batch)"
    "2 \<notin> set (uniqueNewArticles [1, 2] store_a_known_batch)"
    by simp_all
  from T all have "articles (addArticles [1, 2] store_a_known_batch) = articles store_a_known_batch
    \<and> current (addArticles [1, 2] store_a_known_batch) = current store_a_known_batch
    \<and> localStorage (addArticles [1, 2] store_a_known_batch) = localStorage store_a_known_batch
    \<and> alerts (addArticles [1, 2] store_a_known_batch)
         = alerts store_a_known_batch @ [''No new articles found from this source.'']"
    by blast
  then have r: "articles (addArticles [1, 2] store_a_known_batch) = [0]
    \<and> current (addArticles [1, 2] store_a_known_batch) = [art_a]
    \<and> localStorage (addArticles [1, 2] store_a_known_batch) = localStorage store_a_known_batch
    \<and> alerts (addArticles [1, 2] store_a_known_batch) = [''No new articles found from this source.'']"
    by (simp add: f)
  from k n r show ?thesis by blast
qed

text \<open>
  C9. Every addition puts the new articles at the head of the list, in the order of the
  batch, and the articles that were there follow in their order, unchanged:
  \<^verbatim>\<open>addArticles\<close> prepends the incoming articles it keeps, \<^verbatim>\<open>addArticle\<close> prepends
  its article. Seen from the event loop, with the objects of the list allocated, the
  list after a fetched batch is the kept part of the batch followed by the old list, and
  after a single addition the new article followed by the old list.
\<close>

theorem add_prepends:
  "articles (addArticles newArticles s) = uniqueNewArticles newArticles s @ articles s
   \<and> current (addArticles newArticles s) = map (heap s) (uniqueNewArticles newArticles s) @ current s
   \<and> articles (addArticle a s) = a # articles s
   \<and> current (addArticle a s) = heap s a # current s
   \<and> (allocated s \<longrightarrow>
        current (step newURL Multi (Added xs) s)
          = filter (\<lambda>x. source x \<notin> set (map source (current s))) xs @ current s
      \<and> current (step newURL Single (AddedOne x) s) = x # current s)"
proof -
  have m: "current (step newURL Multi (Added xs) s)
          = filter (\<lambda>x. source x \<notin> set (map source (current s))) xs @ current s"
    if "allocated s"
  proof -
    obtain rs s1 where n: "new_objects xs s = (rs, s1)" by (cases "new_objects xs s")
    from Added_current [OF that n] n show ?thesis by simp
  qed
  have o: "current (step newURL Single (AddedOne x) s) = x # current s" if "allocated s"
  proof -
    have "map ((heap s)(next_ref s := x)) (articles s) = map (heap s) (articles s)"
      using that by (auto simp: allocated_iff)
    then show ?thesis
      by (simp add: new_object_def addArticle_def current_def)
  qed
  show ?thesis
    using m o by (simp add: addArticles_articles addArticles_heap current_def addArticle_def)
qed

theorem add_prepends_witness:
  "allocated store_a
   \<and> current (step any_URL Multi (Added [art_d, art_b, art_e]) store_a) = [art_d, art_e, art_a]
   \<and> current (step any_URL Single (AddedOne art_b) store_a) = [art_b, art_a]"
proof -
  have a: "allocated store_a" by (simp add: store_a_eq allocated_def)
  have c: "current store_a = [art_a]" by (simp add: store_a_eq current_def)
  have f: "filter (\<lambda>x. source x \<notin> set (map source [art_a])) [art_d, art_b, art_e] = [art_d, art_e]"
    by (simp add: art_a_def art_b_def art_d_def art_e_def)
  from add_prepends [of "[]" store_a 0 any_URL "[art_d, art_b, art_e]" art_b] a c f
  show ?thesis by simp
qed

text \<open>
  C10. The filter of \<^verbatim>\<open>addArticles\<close> looks at the list only, never at the batch: for a
  source that no article of the list has, every incoming article of that source is kept,
  in order and as often as it occurs, so two incoming articles sharing such a source are
  both in the list afterwards.
\<close>

theorem addArticles_batch_duplicates:
  assumes "src \<notin> set (map source (current s))"
  shows "filter (\<lambda>n. source (heap s n) = src) (uniqueNewArticles newArticles s)
           = filter (\<lambda>n. source (heap s n) = src) newArticles
       \<and> articles (addArticles newArticles s) = uniqueNewArticles newArticles s @ articles s
       \<and> (\<forall>a \<in> set newArticles. source (heap s a) = src \<longrightarrow>
            a \<in> set (articles (addArticles newArticles s)))"
proof -
  have keep: "filter (\<lambda>n. source (heap s n) = src) (uniqueNewArticles newArticles s)
           = filter (\<lambda>n. source (heap s n) = src) newArticles"
    unfolding uniqueNewArticles_filter filter_filter
    by (rule filter_cong) (use assms in auto)
  have mem: "a \<in> set (uniqueNewArticles newArticles s)"
    if "a \<in> set newArticles" "source (heap s a) = src" for a
    using that assms by (simp add: uniqueNewArticles_filter)
  show ?thesis using keep mem by (simp add: addArticles_articles)
qed

theorem addArticles_batch_duplicates_witness:
  "''https://example.org/d'' \<notin> set (map source (current store_a_fresh_batch))
   \<and> source (heap store_a_fresh_batch 1) = ''https://example.org/d''
   \<and> source (heap store_a_fresh_batch 2) = ''https://example.org/d''
   \<and> uniqueNewArticles [1, 2] store_a_fresh_batch = [1, 2]
   \<and> articles (addArticles [1, 2] store_a_fresh_batch) = [1, 2, 0]
   \<and> 1 \<in> set (articles (addArticles [1, 2] store_a_fresh_batch))
   \<and> 2 \<in> set (articles (addArticles [1, 2] store_a_fresh_batch))"
proof -
  have h: "''https://example.org/d'' \<notin> set (map source (current store_a_fresh_batch))"
    by (simp add: store_a_fresh_batch_eq current_def art_a_def)
  have s: "source (heap store_a_fresh_batch 1) = ''https://example.org/d''"
    "source (heap store_a_fresh_batch 2) = ''https://example.org/d''"
    by (simp_all add: store_a_fresh_batch_eq art_d_def art_e_def)
  have u: "uniqueNewArticles [1, 2] store_a_fresh_batch = [1, 2]"
    by (simp add: store_a_fresh_batch_eq uniqueNewArticles_def art_a_def art_d_def art_e_def)
  have a: "articles store_a_fresh_batch = [0]"
    by (simp add: store_a_fresh_batch_eq)
  from addArticles_batch_duplicates [OF h, of "[1, 2]"] u a
  have r: "articles (addArticles [1, 2] store_a_fresh_batch) = [1, 2, 0]
    \<and> 1 \<in> set (articles (addArticles [1, 2] store_a_fresh_batch))
    \<and> 2 \<in> set (articles (addArticles [1, 2] store_a_fresh_batch))"
    by simp
  from h s u r show ?thesis by blast
qed

section \<open>Removing an article\<close>

text \<open>
  C6. \<^verbatim>\<open>removeArticle\<close> with an id that no article of the list has leaves the list as it
  is, in length and in content, and still writes the snapshot, which is then the
  serialization of that same list. It is silent: it does what \<^verbatim>\<open>saveState\<close> alone
  does, so no alert is raised, the modal, the settings, the requests sent and the calls
  awaited are as before, and in the storage only the two keys of \<^verbatim>\<open>saveState\<close> are
  written.
\<close>

theorem removeArticle_absent:
  assumes "articleId \<notin> set (map article_id (current s))"
  shows "articles (removeArticle articleId s) = articles s
       \<and> heap (removeArticle articleId s) = heap s
       \<and> current (removeArticle articleId s) = current s
       \<and> length (current (removeArticle articleId s)) = length (current s)
       \<and> localStorage (removeArticle articleId s) articles_key = Some (JSON_stringify (current s))
       \<and> removeArticle articleId s = saveState s
       \<and> alerts (removeArticle articleId s) = alerts s
       \<and> settingsModal_displayed (removeArticle articleId s) = settingsModal_displayed s
       \<and> backendSettings (removeArticle articleId s) = backendSettings s
       \<and> generateContent_calls (removeArticle articleId s) = generateContent_calls s
       \<and> fetch_calls (removeArticle articleId s) = fetch_calls s
       \<and> awaiting_summary (removeArticle articleId s) = awaiting_summary s
       \<and> next_ref (removeArticle articleId s) = next_ref s
       \<and> localStorage (removeArticle articleId s) settings_key
           = (case backendSettings s of
                None \<Rightarrow> localStorage s settings_key
              | Some b \<Rightarrow> Some (BackendSettings_json b))
       \<and> (\<forall>k. k = articles_key \<or> k = settings_key
               \<or> localStorage (removeArticle articleId s) k = localStorage s k)"
proof -
  have same: "s\<lparr>articles := filter (\<lambda>a. article_id (heap s a) \<noteq> articleId) (articles s)\<rparr> = s"
    using filter_absent_id [OF assms] by simp
  have r: "removeArticle articleId s = saveState s"
    unfolding removeArticle_def same ..
  have k: "localStorage (saveState s) settings_key
           = (case backendSettings s of
                None \<Rightarrow> localStorage s settings_key
              | Some b \<Rightarrow> Some (BackendSettings_json b))"
    using keys_differ by (auto simp: saveState_def Let_def split: option.split)
  have o: "k = articles_key \<or> k = settings_key \<or> localStorage (saveState s) k = localStorage s k" for k
    by (auto simp: saveState_def Let_def split: option.split)
  show ?thesis
    unfolding r using k o by (simp add: saveState_stored)
qed

theorem removeArticle_absent_witness:
  "''art-9-9'' \<notin> set (map article_id (current store_a_summarizing))
   \<and> articles (removeArticle ''art-9-9'' store_a_summarizing) = [0]
   \<and> current (removeArticle ''art-9-9'' store_a_summarizing) = [art_a\<lparr>isSummarizing := Some True\<rparr>]
   \<and> localStorage store_a_summarizing articles_key = Some (JSON_stringify [art_a])
   \<and> localStorage (removeArticle ''art-9-9'' store_a_summarizing) articles_key
       = Some (JSON_stringify [art_a\<lparr>isSummarizing := Some True\<rparr>])
   \<and> alerts (removeArticle ''art-9-9'' store_a_summarizing) = []
   \<and> settingsModal_displayed (removeArticle ''art-9-9'' store_a_summarizing) = False
   \<and> awaiting_summary (removeArticle ''art-9-9'' store_a_summarizing) = [0]
   \<and> localStorage (removeArticle ''art-9-9'' store_a_summarizing) settings_key = None"
proof -
  have h: "''art-9-9'' \<notin> set (map article_id (current store_a_summarizing))"
    by (simp add: store_a_summarizing_eq current_def art_a_def)
  have f: "articles store_a_summarizing = [0]"
    "current store_a_summarizing = [art_a\<lparr>isSummarizing := Some True\<rparr>]"
    "localStorage store_a_summarizing articles_key = Some (JSON_stringify [art_a])"
    by (simp_all add: store_a_summarizing_eq current_def)
  have g: "alerts store_a_summarizing = []" "settingsModal_displayed store_a_summarizing = False"
    "awaiting_summary store_a_summarizing = [0]" "backendSettings store_a_summarizing = None"
    "localStorage store_a_summarizing settings_key = None"
    by (simp_all add: store_a_summarizing_eq articles_key_def settings_key_def)
  from removeArticle_absent [OF h]
  have "articles (removeArticle ''art-9-9'' store_a_summarizing) = articles store_a_summarizing
    \<and> current (removeArticle ''art-9-9'' store_a_summarizing) = current store_a_summarizing
    \<and> localStorage (removeArticle ''art-9-9'' store_a_summarizing) articles_key
       = Some (JSON_stringify (current store_a_summarizing))
    \<and> alerts (removeArticle ''art-9-9'' store_a_summarizing) = alerts store_a_summarizing
    \<and> settingsModal_displayed (removeArticle ''art-9-9'' store_a_summarizing)
       = settingsModal_displayed store_a_summarizing
    \<and> awaiting_summary (removeArticle ''art-9-9'' store_a_summarizing)
       = awaiting_summary store_a_summarizing
    \<and> localStorage (removeArticle ''art-9-9'' store_a_summarizing) settings_key
           = (case backendSettings store_a_summarizing of
                None \<Rightarrow> localStorage store_a_summarizing settings_key
              | Some b \<Rightarrow> Some (BackendSettings_json b))"
    by blast
  then have r: "articles (removeArticle ''art-9-9'' store_a_summarizing) = [0]
    \<and> current (removeArticle ''art-9-9'' store_a_summarizing) = [art_a\<lparr>isSummarizing := Some True\<rparr>]
    \<and> localStorage (removeArticle ''art-9-9'' store_a_summarizing) articles_key
       = Some (JSON_stringify [art_a\<lparr>isSummarizing := Some True\<rparr>])
    \<and> alerts (removeArticle ''art-9-9'' store_a_summarizing) = []
    \<and> settingsModal_displayed (removeArticle ''art-9-9'' store_a_summarizing) = False
    \<and> awaiting_summary (removeArticle ''art-9-9'' store_a_summarizing) = [0]
    \<and> localStorage (removeArticle ''art-9-9'' store_a_summarizing) settings_key = None"
    by (simp add: f g)
  from h f r show ?thesis by blast
qed

section \<open>The summarization request\<close>

text \<open>
  C5. The specification gives one prompt for every summarization request:
  ``Summarize the following article in a concise paragraph:'', a rule, the title and
  the content. The multi-article variant sends another text (``the following web
  article''), so the request for the article of the example store does not carry that
  prompt.
\<close>

theorem prompt_counterexample:
  "map contents (generateContent_calls
      (run any_URL Multi [Added [art_a], Summarize ''art-1-0''] (initial Map.empty)))
   \<noteq> [''Summarize the following article in a concise paragraph:\<newline>\<newline>---\<newline>\<newline>Title: A\<newline>\<newline>B'']"
  by (simp add: initial_def new_object_def addArticles_def uniqueNewArticles_def
      saveState_def current_def handleSummarize_def art_a_def)

text \<open>
  C5, as the code has it. For an article found by its id and not being summarized, the
  request carries the model identifier \<^verbatim>\<open>gemini-2.5-flash\<close> and the prompt of the
  variant, built from the article's title and content: the specification's text in the
  single-article variant, the text with ``web article'' in the multi-article variant.
  When the call is fulfilled with a text, the article's summary is that text trimmed.
\<close>

theorem summarize_request:
  "(find (\<lambda>a. article_id (heap s a) = articleId) (articles s) = Some article
      \<and> isSummarizing (heap s article) \<noteq> Some True \<longrightarrow>
      generateContent_calls (handleSummarize Single articleId s)
        = generateContent_calls s @
            [\<lparr>model = ''gemini-2.5-flash'',
              contents = ''Summarize the following article in a concise paragraph:\<newline>\<newline>---\<newline>\<newline>Title: ''
                           @ title (heap s article) @ ''\<newline>\<newline>'' @ content (heap s article)\<rparr>]
      \<and> generateContent_calls (handleSummarize Multi articleId s)
        = generateContent_calls s @
            [\<lparr>model = ''gemini-2.5-flash'',
              contents = ''Summarize the following web article in a concise paragraph:\<newline>\<newline>---\<newline>\<newline>Title: ''
                           @ title (heap s article) @ ''\<newline>\<newline>'' @ content (heap s article)\<rparr>])
   \<and> (k < length (awaiting_summary s) \<longrightarrow>
        summary (heap (handleSummarize_settle k (Fulfilled (Some text)) s) (awaiting_summary s ! k))
          = Some (trim text))"
proof -
  have "generateContent_calls (handleSummarize v articleId s)
        = generateContent_calls s @
            [\<lparr>model = ''gemini-2.5-flash'',
              contents = prompt v (title (heap s article)) (content (heap s article))\<rparr>]"
    if "find (\<lambda>a. article_id (heap s a) = articleId) (articles s) = Some article"
      "isSummarizing (heap s article) \<noteq> Some True" for v
    using handleSummarize_accepted [OF that, of v] by simp
  from this [of Single] this [of Multi]
  show ?thesis
    by (simp add: handleSummarize_settle_def Let_def)
qed

theorem summarize_request_witness:
  "find (\<lambda>a. article_id (heap store_a a) = ''art-1-0'') (articles store_a) = Some 0
   \<and> isSummarizing (heap store_a 0) \<noteq> Some True
   \<and> generateContent_calls (handleSummarize Single ''art-1-0'' store_a)
       = [\<lparr>model = ''gemini-2.5-flash'',
           contents = ''Summarize the following article in a concise paragraph:\<newline>\<newline>---\<newline>\<newline>Title: A\<newline>\<newline>B''\<rparr>]
   \<and> generateContent_calls (handleSummarize Multi ''art-1-0'' store_a)
       = [\<lparr>model = ''gemini-2.5-flash'',
           contents = ''Summarize the following web article in a concise paragraph:\<newline>\<newline>---\<newline>\<newline>Title: A\<newline>\<newline>B''\<rparr>]
   \<and> 0 < length (awaiting_summary store_a_summarizing)
   \<and> summary (heap (handleSummarize_settle 0 (Fulfilled (Some '' A and B.\<newline>'')) store_a_summarizing) 0)
       = Some ''A and B.''"
proof -
  have f: "find (\<lambda>a. article_id (heap store_a a) = ''art-1-0'') (articles store_a) = Some 0"
    and n: "isSummarizing (heap store_a 0) \<noteq> Some True"
    by (simp_all add: store_a_eq art_a_def)
  have v: "generateContent_calls store_a = []" "title (heap store_a 0) = ''A''"
    "content (heap store_a 0) = ''B''"
    by (simp_all add: store_a_eq art_a_def)
  have k: "0 < length (awaiting_summary store_a_summarizing)"
    and a: "awaiting_summary store_a_summarizing ! 0 = 0"
    by (simp_all add: store_a_summarizing_eq)
  have t: "trim '' A and B.\<newline>'' = ''A and B.''"
    by (simp add: trim_def is_space_def)
  from summarize_request [of store_a "''art-1-0''" 0 0 "[]"] f n v
  have r: "generateContent_calls (handleSummarize Single ''art-1-0'' store_a)
       = [\<lparr>model = ''gemini-2.5-flash'',
           contents = ''Summarize the following article in a concise paragraph:\<newline>\<newline>---\<newline>\<newline>Title: A\<newline>\<newline>B''\<rparr>]
   \<and> generateContent_calls (handleSummarize Multi ''art-1-0'' store_a)
       = [\<lparr>model = ''gemini-2.5-flash'',
           contents = ''Summarize the following web article in a concise paragraph:\<newline>\<newline>---\<newline>\<newline>Title: A\<newline>\<newline>B''\<rparr>]"
    by simp
  from summarize_request [of store_a_summarizing "''art-1-0''" 0 0 "'' A and B.\<newline>''"] k a t
  have u: "summary (heap (handleSummarize_settle 0 (Fulfilled (Some '' A and B.\<newline>'')) store_a_summarizing) 0)
       = Some ''A and B.''"
    by simp
  from f n r k u show ?thesis by blast
qed

section \<open>Fetching without settings\<close>

text \<open>
  C7. A fetch attempted while the backend settings are unset, or have an empty url or an
  empty key, sends nothing: no request to the backend and no summarization call. The
  alert is raised, the settings modal is displayed, and the list, its objects and the
  storage are as before. This holds for \<^verbatim>\<open>fetchArticlesFromSource\<close> and for
  \<^verbatim>\<open>fetchArticleFromBackend\<close>.
\<close>

theorem fetch_blocked:
  assumes "backendSettings s = None
           \<or> (\<exists>b. backendSettings s = Some b \<and> (url b = [] \<or> key b = []))"
    and "s' = (case v of Multi \<Rightarrow> fetchArticlesFromSource newURL u s
                        | Single \<Rightarrow> fetchArticleFromBackend newURL u s)"
  shows "fetch_calls s' = fetch_calls s
       \<and> generateContent_calls s' = generateContent_calls s
       \<and> alerts s' = alerts s @ [settings_missing]
       \<and> settingsModal_displayed s'
       \<and> articles s' = articles s \<and> heap s' = heap s
       \<and> localStorage s' = localStorage s"
  using assms
  by (cases v)
     (auto simp: fetchArticlesFromSource_def fetchArticleFromBackend_def fetch_from_backend_def
        openSettingsModal_def split: option.split)

theorem fetch_blocked_witness:
  "backendSettings store_a = None
   \<and> fetch_calls (fetchArticlesFromSource any_URL ''https://example.org/n'' store_a) = []
   \<and> generateContent_calls (fetchArticlesFromSource any_URL ''https://example.org/n'' store_a) = []
   \<and> alerts (fetchArticlesFromSource any_URL ''https://example.org/n'' store_a) = [settings_missing]
   \<and> settingsModal_displayed (fetchArticlesFromSource any_URL ''https://example.org/n'' store_a)
   \<and> articles (fetchArticlesFromSource any_URL ''https://example.org/n'' store_a) = [0]
   \<and> localStorage (fetchArticlesFromSource any_URL ''https://example.org/n'' store_a)
       = localStorage store_a"
proof -
  have h: "backendSettings store_a = None" by (simp add: store_a_eq)
  then have h': "backendSettings store_a = None
           \<or> (\<exists>b. backendSettings store_a = Some b \<and> (url b = [] \<or> key b = []))" ..
  have f: "fetch_calls store_a = []" "generateContent_calls store_a = []" "alerts store_a = []"
    "articles store_a = [0]"
    by (simp_all add: store_a_eq)
  from fetch_blocked [OF h' refl, where v = Multi and newURL = any_URL
      and u = "''https://example.org/n''"] f
  have r: "fetch_calls (fetchArticlesFromSource any_URL ''https://example.org/n'' store_a) = []
   \<and> generateContent_calls (fetchArticlesFromSource any_URL ''https://example.org/n'' store_a) = []
   \<and> alerts (fetchArticlesFromSource any_URL ''https://example.org/n'' store_a) = [settings_missing]
   \<and> settingsModal_displayed (fetchArticlesFromSource any_URL ''https://example.org/n'' store_a)
   \<and> articles (fetchArticlesFromSource any_URL ''https://example.org/n'' store_a) = [0]
   \<and> localStorage (fetchArticlesFromSource any_URL ''https://example.org/n'' store_a)
       = localStorage store_a"
    by simp
  from h r show ?thesis by blast
qed

section \<open>The flag in storage\<close>

text \<open>
  C8. The specification asks that no stored snapshot holds an article with
  \<^verbatim>\<open>isSummarizing\<close> true. \<^verbatim>\<open>saveState\<close> writes the objects as they are, so a write
  made while a call is awaited stores the flag: from the empty application, fetch one
  article, start its summarization, and remove an article (here one that is not there).
\<close>

theorem stored_flag_counterexample:
  "localStorage
     (run any_URL Multi [Added [art_a], Summarize ''art-1-0'', Remove ''art-9-9'']
        (initial Map.empty)) articles_key
   = Some (JArray [JObject [(''id'', JString ''art-1-0''), (''title'', JString ''A''),
        (''content'', JString ''B''), (''source'', JString ''https://example.org/a''),
        (''isSummarizing'', JBool True)]])"
  by (simp add: initial_def art_a_def new_object_def addArticles_def uniqueNewArticles_def
      saveState_def current_def JSON_stringify_def Article_json_def Article_props_def handleSummarize_def
      removeArticle_def articles_key_def settings_key_def)

text \<open>
  C8, as the code has it. \<^verbatim>\<open>saveState\<close> stores every article of the list with the
  flag it has in memory, \<^verbatim>\<open>true\<close> as \<^verbatim>\<open>true\<close>. The flag is reset when the storage
  is read: after \<^verbatim>\<open>main\<close> has loaded the state, every object of the list has
  \<^verbatim>\<open>isSummarizing\<close> false, whatever was stored. The load ends without that list only
  by the \<^verbatim>\<open>TypeError\<close> of a stored articles value that is not an array or of a
  stored settings value \<^verbatim>\<open>null\<close>. A snapshot written by \<^verbatim>\<open>saveState\<close> loads to the
  articles it was written from with the flag false.
\<close>

theorem load_resets_flag:
  "(\<exists>objs. localStorage (saveState s) articles_key = Some (JArray (map JObject objs))
      \<and> map (\<lambda>obj. get_property obj ''isSummarizing'') objs
          = map (\<lambda>a. map_option JBool (isSummarizing a)) (current s))
   \<and> (main ls = Some m \<longrightarrow>
        list_all (\<lambda>obj. get_property obj ''isSummarizing'' = Some (JBool False)) (loaded_articles m))
   \<and> (main ls = None \<longleftrightarrow>
        (\<exists>j. ls articles_key = Some j \<and> (\<forall>xs. j \<noteq> JArray xs)) \<or> ls settings_key = Some JNull)
   \<and> (ls articles_key = Some (JSON_stringify ys) \<and> ls settings_key \<noteq> Some JNull \<longrightarrow>
        (\<exists>t. main ls = Some t
           \<and> loaded_articles t = map (\<lambda>a. Article_props (a\<lparr>isSummarizing := Some False\<rparr>)) ys))"
  using saveState_flags [of s] main_flags [of ls m] main_throws [of ls] main_of_saved [of ls ys]
  by blast

theorem load_resets_flag_witness:
  "localStorage (removeArticle ''art-9-9'' store_a_summarizing) articles_key
     = Some (JSON_stringify [art_a\<lparr>isSummarizing := Some True\<rparr>])
   \<and> localStorage (removeArticle ''art-9-9'' store_a_summarizing) settings_key \<noteq> Some JNull
   \<and> (\<exists>t. main (localStorage (removeArticle ''art-9-9'' store_a_summarizing)) = Some t
         \<and> loaded_articles t = [Article_props (art_a\<lparr>isSummarizing := Some False\<rparr>)]
         \<and> list_all (\<lambda>obj. get_property obj ''isSummarizing'' = Some (JBool False)) (loaded_articles t))
   \<and> (\<exists>t. main [articles_key \<mapsto> JArray [JObject [(''id'', JNumber 7), (''isSummarizing'', JBool True),
                                              (''tag'', JNull)], JNull]] = Some t
         \<and> list_all (\<lambda>obj. get_property obj ''isSummarizing'' = Some (JBool False)) (loaded_articles t))"
proof -
  let ?ls = "localStorage (removeArticle ''art-9-9'' store_a_summarizing)"
  let ?raw = "[articles_key \<mapsto> JArray [JObject [(''id'', JNumber 7), (''isSummarizing'', JBool True),
                                              (''tag'', JNull)], JNull]]"
  have a: "?ls articles_key = Some (JSON_stringify [art_a\<lparr>isSummarizing := Some True\<rparr>])"
    by (simp add: store_a_summarizing_eq removeArticle_def saveState_def current_def art_a_def)
  have b: "?ls settings_key \<noteq> Some JNull"
    by (simp add: store_a_summarizing_eq removeArticle_def saveState_def
        articles_key_def settings_key_def)
  from load_resets_flag [of _ ?ls _ "[art_a\<lparr>isSummarizing := Some True\<rparr>]"] a b
  obtain t where t: "main ?ls = Some t"
    "loaded_articles t = map (\<lambda>a. Article_props (a\<lparr>isSummarizing := Some False\<rparr>))
                            [art_a\<lparr>isSummarizing := Some True\<rparr>]"
    by blast
  from load_resets_flag [of _ ?ls t] t(1)
  have f: "list_all (\<lambda>obj. get_property obj ''isSummarizing'' = Some (JBool False)) (loaded_articles t)"
    by blast
  from t(2) have l: "loaded_articles t = [Article_props (art_a\<lparr>isSummarizing := Some False\<rparr>)]"
    by simp
  have "main ?raw \<noteq> None"
    unfolding load_resets_flag [THEN conjunct2, THEN conjunct2, THEN conjunct1, of ?raw]
    by (simp add: articles_key_def settings_key_def)
  then obtain u where u: "main ?raw = Some u" by blast
  from load_resets_flag [of _ ?raw u] u
  have g: "list_all (\<lambda>obj. get_property obj ''isSummarizing'' = Some (JBool False)) (loaded_articles u)"
    by blast
  from a b t(1) l f u g show ?thesis by blast
qed

end
